theory Spec2Isabelle
  imports Main "HOL-Library.Word" "HOL-Library.List_Lexorder" "HOL-Library.Char_ord"
    "HOL-Library.Multiset"
begin

section \<open>The device manager of llad (src/llad/DeviceManager.cpp)\<close>

text \<open>
  The model follows \<^verbatim>\<open>DeviceManager.cpp\<close> function by function. C++ pointers are
  addresses into explicit heaps (\<open>None\<close> is the null pointer), \<^verbatim>\<open>unsigned int\<close> and
  \<^verbatim>\<open>int\<close> are 32-bit words, \<^verbatim>\<open>std::map<string, _>\<close> is an association list kept in
  key order (the order in which the C++ iterators visit it), and a member function that
  mutates the manager returns the new manager.
\<close>

subsection \<open>Machine types\<close>

type_synonym uint = "32 word"
  \<comment> \<open>\<^verbatim>\<open>unsigned int\<close>; \<open>+\<close> wraps\<close>
type_synonym cint = "32 word"
  \<comment> \<open>\<^verbatim>\<open>int\<close>, read with \<open>sint\<close>\<close>
type_synonym device_ptr = nat
  \<comment> \<open>the address of an \<^verbatim>\<open>AbstractDevice\<close>\<close>
type_synonym port_ptr = nat
  \<comment> \<open>the address of an \<^verbatim>\<open>AbstractPort\<close>\<close>

subsection \<open>The C library: \<^verbatim>\<open>strtol\<close>\<close>

text \<open>
  \<^verbatim>\<open>strtol(nptr, NULL, 10)\<close> after ISO C 7.22.1.4: white space is skipped, an optional
  sign is read, then the longest run of decimal digits. With no digit there is no
  conversion and the result is 0; a value outside \<^verbatim>\<open>long\<close> is clamped and \<^verbatim>\<open>errno\<close>
  becomes \<^verbatim>\<open>ERANGE\<close>. Two things differ between platforms and are parameters: the
  width of \<^verbatim>\<open>long\<close>, and whether a failed conversion sets \<^verbatim>\<open>errno\<close> to \<^verbatim>\<open>EINVAL\<close>
  (POSIX allows it, the BSD libc does it, glibc does not).
\<close>

datatype data_model = ILP32 | LP64

record platform =
  long_model :: data_model
  noconv_einval :: bool

definition glibc_lp64 :: platform where
  "glibc_lp64 = \<lparr>long_model = LP64, noconv_einval = False\<rparr>"

fun LONG_MAX :: "data_model \<Rightarrow> int" where
  "LONG_MAX ILP32 = 2147483647"
| "LONG_MAX LP64 = 9223372036854775807"

fun LONG_MIN :: "data_model \<Rightarrow> int" where
  "LONG_MIN ILP32 = - 2147483648"
| "LONG_MIN LP64 = - 9223372036854775808"

datatype errno_code = EINVAL | ERANGE

definition isspace :: "char \<Rightarrow> bool" where
  "isspace c = ((of_char c :: nat) = 32 \<or> (9 \<le> (of_char c :: nat) \<and> (of_char c :: nat) \<le> 13))"

definition isdigit :: "char \<Rightarrow> bool" where
  "isdigit c = (48 \<le> (of_char c :: nat) \<and> (of_char c :: nat) \<le> 57)"

fun digits_value :: "int \<Rightarrow> string \<Rightarrow> int" where
  "digits_value acc [] = acc"
| "digits_value acc (c # cs) = digits_value (10 * acc + (int (of_char c) - 48)) cs"

definition strtol_sign :: "string \<Rightarrow> bool \<times> string" where
  "strtol_sign s =
     (case s of
        [] \<Rightarrow> (False, [])
      | c # cs \<Rightarrow>
          if c = CHR ''-'' then (True, cs)
          else if c = CHR ''+'' then (False, cs)
          else (False, c # cs))"

text \<open>The result is the returned \<^verbatim>\<open>long\<close> and what the call stores in \<^verbatim>\<open>errno\<close>
  (\<open>None\<close>: \<^verbatim>\<open>errno\<close> is left as it was).\<close>

definition strtol :: "platform \<Rightarrow> string \<Rightarrow> int \<times> errno_code option" where
  "strtol pf nptr =
     (let (neg, s) = strtol_sign (dropWhile isspace nptr);
          ds = takeWhile isdigit s
      in if ds = [] then (0, if noconv_einval pf then Some EINVAL else None)
         else
           let v = (if neg then - digits_value 0 ds else digits_value 0 ds)
           in if LONG_MAX (long_model pf) < v then (LONG_MAX (long_model pf), Some ERANGE)
              else if v < LONG_MIN (long_model pf) then (LONG_MIN (long_model pf), Some ERANGE)
              else (v, None))"

subsection \<open>Collaborators that are not part of the file\<close>

text \<open>Modelled from the spec: \<^verbatim>\<open>IntToString\<close> of \<^verbatim>\<open>lla/StringUtils.h\<close> is missing; the
  spec has the universe id "serialized as a decimal string".\<close>

fun dec_digits :: "nat \<Rightarrow> string" where
  "dec_digits n =
     (if n < 10 then [char_of (48 + n)]
      else dec_digits (n div 10) @ [char_of (48 + n mod 10)])"

declare dec_digits.simps [simp del]

definition IntToString :: "cint \<Rightarrow> string" where
  "IntToString i =
     (if sint i < 0 then CHR ''-'' # dec_digits (nat (- sint i))
      else dec_digits (nat (sint i)))"

text \<open>Modelled from the spec: the \<^verbatim>\<open>Preferences\<close> class is missing; the spec gives a
  string-keyed mapping with \<open>get(key) -> string (empty if absent)\<close>, \<open>set(key, value)\<close>
  and \<open>remove(key)\<close>, where removing a key that is not there is not an error.\<close>

type_synonym Preferences = "string \<rightharpoonup> string"

definition GetValue :: "Preferences \<Rightarrow> string \<Rightarrow> string" where
  "GetValue prefs key = (case prefs key of None \<Rightarrow> [] | Some v \<Rightarrow> v)"

definition SetValue :: "Preferences \<Rightarrow> string \<Rightarrow> string \<Rightarrow> Preferences" where
  "SetValue prefs key v = prefs(key \<mapsto> v)"

definition RemoveValue :: "Preferences \<Rightarrow> string \<Rightarrow> Preferences" where
  "RemoveValue prefs key = prefs(key := None)"

text \<open>Modelled from the spec: \<^verbatim>\<open>llad/Port.h\<close> and \<^verbatim>\<open>DeviceManager.h\<close> are missing. A port
  has a \<open>unique_id\<close> and a nullable \<open>bound_universe\<close>; a universe is owned by the
  Universe Store and identified by its numeric id, so a \<^verbatim>\<open>Universe*\<close> is that id. A
  device has a \<open>unique_id\<close>, a \<open>name\<close> and an ordered sequence of ports.\<close>

record AbstractPort =
  port_UniqueId :: string
  port_Universe :: "cint option"

record AbstractDevice =
  dev_UniqueId :: string
  dev_Name :: string
  dev_Ports :: "port_ptr list"

record device_alias_pair =
  pair_alias :: uint
  pair_device :: "device_ptr option"

text \<open>Modelled from the spec: the \<^verbatim>\<open>UniverseStore\<close> and \<^verbatim>\<open>Universe\<close> classes are missing.
  \<open>get_or_create(universe_id)\<close> "returns an existing universe or creates one"; the store
  is the set of the ids of the universes that exist. \<^verbatim>\<open>Universe::AddPort\<close> binds the port
  to the universe.\<close>

definition GetUniverseOrCreate :: "cint set \<Rightarrow> cint \<Rightarrow> cint \<times> cint set" where
  "GetUniverseOrCreate store universe_id = (universe_id, insert universe_id store)"

definition AddPort ::
    "cint \<Rightarrow> port_ptr \<Rightarrow> (port_ptr \<Rightarrow> AbstractPort) \<Rightarrow> (port_ptr \<Rightarrow> AbstractPort)" where
  "AddPort uni p hp = hp(p := (hp p)\<lparr>port_Universe := Some uni\<rparr>)"

text \<open>Modelled from the spec: \<^verbatim>\<open>FIRST_DEVICE_ALIAS\<close> is declared in the missing
  \<^verbatim>\<open>DeviceManager.h\<close>; in the spec the first device registered gets alias 1.\<close>

definition FIRST_DEVICE_ALIAS :: uint where
  "FIRST_DEVICE_ALIAS = 1"

text \<open>\<^verbatim>\<open>const unsigned int DeviceManager::MISSING_DEVICE_ALIAS = 0;\<close>\<close>

definition MISSING_DEVICE_ALIAS :: uint where
  "MISSING_DEVICE_ALIAS = 0"

subsection \<open>\<^verbatim>\<open>std::map<string, device_alias_pair>\<close>\<close>

text \<open>\<^verbatim>\<open>find\<close> is \<open>map_of\<close>. \<^verbatim>\<open>m[key] = value\<close> puts the entry at its place in key order
  (\<^verbatim>\<open>std::string\<close> compares bytes lexicographically) or overwrites the entry of an equal
  key. Writing through an iterator changes the entry in place.\<close>

fun map_insert :: "string \<Rightarrow> 'v \<Rightarrow> (string \<times> 'v) list \<Rightarrow> (string \<times> 'v) list" where
  "map_insert k v [] = [(k, v)]"
| "map_insert k v ((k', v') # xs) =
     (if k = k' then (k, v) # xs
      else if k < k' then (k, v) # (k', v') # xs
      else (k', v') # map_insert k v xs)"

fun set_device ::
    "string \<Rightarrow> device_ptr option \<Rightarrow> (string \<times> device_alias_pair) list
      \<Rightarrow> (string \<times> device_alias_pair) list" where
  "set_device k d [] = []"
| "set_device k d ((k', pair) # xs) =
     (if k = k' then (k', pair\<lparr>pair_device := d\<rparr>) # xs
      else (k', pair) # set_device k d xs)"

subsection \<open>The manager\<close>

text \<open>The members of \<^verbatim>\<open>DeviceManager\<close>, then what its pointers reach: the universes of
  the store behind \<^verbatim>\<open>m_universe_store\<close>, the devices and the ports. A null
  \<^verbatim>\<open>m_port_preferences\<close> is \<open>None\<close>.\<close>

record DeviceManager =
  m_devices :: "(string \<times> device_alias_pair) list"
  m_alias_map :: "uint \<rightharpoonup> device_ptr"
  m_next_device_alias :: uint
  m_port_preferences :: "Preferences option"
  m_universe_store :: "cint set"
  heap_devices :: "device_ptr \<Rightarrow> AbstractDevice"
  heap_ports :: "port_ptr \<Rightarrow> AbstractPort"

text \<open>The constructor: \<open>prefs\<close> is what \<^verbatim>\<open>NewPreference("port")\<close> holds after \<^verbatim>\<open>Load()\<close>, or
  \<open>None\<close> when there is no preferences factory.\<close>

definition DeviceManager_new ::
    "Preferences option \<Rightarrow> cint set \<Rightarrow> (device_ptr \<Rightarrow> AbstractDevice)
      \<Rightarrow> (port_ptr \<Rightarrow> AbstractPort) \<Rightarrow> DeviceManager" where
  "DeviceManager_new prefs store devs ports =
     \<lparr>m_devices = [], m_alias_map = Map.empty,
      m_next_device_alias = FIRST_DEVICE_ALIAS,
      m_port_preferences = prefs, m_universe_store = store,
      heap_devices = devs, heap_ports = ports\<rparr>"

subsubsection \<open>\<^verbatim>\<open>SaveDevicePortPatchings\<close>\<close>

text \<open>The body of the loop over the ports, then the loop.\<close>

definition save_port ::
    "(port_ptr \<Rightarrow> AbstractPort) \<Rightarrow> port_ptr \<Rightarrow> Preferences \<Rightarrow> Preferences" where
  "save_port hp p prefs =
     (if port_UniqueId (hp p) = [] then prefs
      else
        (case port_Universe (hp p) of
           None \<Rightarrow> RemoveValue prefs (port_UniqueId (hp p))
         | Some u \<Rightarrow> SetValue prefs (port_UniqueId (hp p)) (IntToString u)))"

fun save_ports ::
    "(port_ptr \<Rightarrow> AbstractPort) \<Rightarrow> port_ptr list \<Rightarrow> Preferences \<Rightarrow> Preferences" where
  "save_ports hp [] prefs = prefs"
| "save_ports hp (p # ps) prefs = save_ports hp ps (save_port hp p prefs)"

definition SaveDevicePortPatchings ::
    "DeviceManager \<Rightarrow> device_ptr option \<Rightarrow> DeviceManager" where
  "SaveDevicePortPatchings s dev =
     (case m_port_preferences s of
        None \<Rightarrow> s
      | Some prefs \<Rightarrow>
          (case dev of
             None \<Rightarrow> s
           | Some d \<Rightarrow>
               s\<lparr>m_port_preferences :=
                   Some (save_ports (heap_ports s) (dev_Ports (heap_devices s d)) prefs)\<rparr>))"

subsubsection \<open>\<^verbatim>\<open>RestoreDevicePortPatchings\<close>\<close>

text \<open>The body of the loop over the ports, then the loop. \<^verbatim>\<open>errno\<close> is 0 before the
  call of \<^verbatim>\<open>strtol\<close>, so it is non-zero after it exactly when the call stored a code.
  The cast \<^verbatim>\<open>(int)\<close> of a \<^verbatim>\<open>long\<close> keeps the low 32 bits.\<close>

definition restore_port ::
    "platform \<Rightarrow> Preferences \<Rightarrow> port_ptr
      \<Rightarrow> cint set \<times> (port_ptr \<Rightarrow> AbstractPort) \<Rightarrow> cint set \<times> (port_ptr \<Rightarrow> AbstractPort)" where
  "restore_port pf prefs p w =
     (case w of (store, hp) \<Rightarrow>
        if port_UniqueId (hp p) = [] then w
        else
          let uni_id = GetValue prefs (port_UniqueId (hp p))
          in if uni_id = [] then w
             else
               let (r, errno) = strtol pf uni_id;
                   id = (word_of_int r :: cint)
               in if id = 0 \<and> errno \<noteq> None then w
                  else
                    let (uni, store') = GetUniverseOrCreate store id
                    in (store', AddPort uni p hp))"

fun restore_ports ::
    "platform \<Rightarrow> Preferences \<Rightarrow> port_ptr list
      \<Rightarrow> cint set \<times> (port_ptr \<Rightarrow> AbstractPort) \<Rightarrow> cint set \<times> (port_ptr \<Rightarrow> AbstractPort)" where
  "restore_ports pf prefs [] w = w"
| "restore_ports pf prefs (p # ps) w = restore_ports pf prefs ps (restore_port pf prefs p w)"

definition RestoreDevicePortPatchings ::
    "platform \<Rightarrow> DeviceManager \<Rightarrow> device_ptr option \<Rightarrow> DeviceManager" where
  "RestoreDevicePortPatchings pf s dev =
     (case m_port_preferences s of
        None \<Rightarrow> s
      | Some prefs \<Rightarrow>
          (case dev of
             None \<Rightarrow> s
           | Some d \<Rightarrow>
               let (store', hp') =
                     restore_ports pf prefs (dev_Ports (heap_devices s d))
                       (m_universe_store s, heap_ports s)
               in s\<lparr>m_universe_store := store', heap_ports := hp'\<rparr>))"

subsubsection \<open>\<^verbatim>\<open>RegisterDevice\<close>\<close>

definition install_device ::
    "platform \<Rightarrow> DeviceManager \<Rightarrow> uint \<Rightarrow> device_ptr \<Rightarrow> bool \<times> DeviceManager" where
  \<comment> \<open>the common tail of the two success paths: the alias map entry, then the restore\<close>
  "install_device pf s a d =
     (True, RestoreDevicePortPatchings pf (s\<lparr>m_alias_map := (m_alias_map s)(a \<mapsto> d)\<rparr>) (Some d))"

definition RegisterDevice ::
    "platform \<Rightarrow> DeviceManager \<Rightarrow> device_ptr option \<Rightarrow> bool \<times> DeviceManager" where
  "RegisterDevice pf s dev =
     (case dev of
        None \<Rightarrow> (False, s)
      | Some d \<Rightarrow>
          let device_id = dev_UniqueId (heap_devices s d)
          in if device_id = [] then (False, s)
             else
               (case map_of (m_devices s) device_id of
                  Some pair \<Rightarrow>
                    (case pair_device pair of
                       Some _ \<Rightarrow> (False, s)
                     | None \<Rightarrow>
                         install_device pf
                           (s\<lparr>m_devices := set_device device_id (Some d) (m_devices s)\<rparr>)
                           (pair_alias pair) d)
                | None \<Rightarrow>
                    install_device pf
                      (s\<lparr>m_next_device_alias := m_next_device_alias s + 1,
                         m_devices :=
                           map_insert device_id
                             \<lparr>pair_alias = m_next_device_alias s, pair_device = Some d\<rparr> (m_devices s)\<rparr>)
                      (m_next_device_alias s) d))"

subsubsection \<open>\<^verbatim>\<open>UnregisterDevice\<close>, both overloads\<close>

definition UnregisterDevice :: "DeviceManager \<Rightarrow> string \<Rightarrow> bool \<times> DeviceManager" where
  "UnregisterDevice s device_id =
     (case map_of (m_devices s) device_id of
        None \<Rightarrow> (False, s)
      | Some pair \<Rightarrow>
          (case pair_device pair of
             None \<Rightarrow> (False, s)
           | Some d \<Rightarrow>
               let s1 = SaveDevicePortPatchings s (Some d)
               in (True,
                   s1\<lparr>m_alias_map := (m_alias_map s1)(pair_alias pair := None),
                      m_devices := set_device device_id None (m_devices s1)\<rparr>)))"

definition UnregisterDevice_ptr ::
    "DeviceManager \<Rightarrow> device_ptr option \<Rightarrow> bool \<times> DeviceManager" where
  "UnregisterDevice_ptr s dev =
     (case dev of
        None \<Rightarrow> (False, s)
      | Some d \<Rightarrow>
          let device_id = dev_UniqueId (heap_devices s d)
          in if device_id = [] then (False, s) else UnregisterDevice s device_id)"

subsubsection \<open>\<^verbatim>\<open>DeviceCount\<close>, \<^verbatim>\<open>Devices\<close>, \<^verbatim>\<open>GetDevice\<close>\<close>

fun DeviceCount_loop :: "(string \<times> device_alias_pair) list \<Rightarrow> uint \<Rightarrow> uint" where
  "DeviceCount_loop [] cnt = cnt"
| "DeviceCount_loop ((k, pair) # xs) cnt =
     DeviceCount_loop xs (if pair_device pair \<noteq> None then cnt + 1 else cnt)"

definition DeviceCount :: "DeviceManager \<Rightarrow> uint" where
  "DeviceCount s = DeviceCount_loop (m_devices s) 0"

fun Devices_loop ::
    "(string \<times> device_alias_pair) list \<Rightarrow> device_alias_pair list \<Rightarrow> device_alias_pair list" where
  "Devices_loop [] result = result"
| "Devices_loop ((k, pair) # xs) result =
     Devices_loop xs (if pair_device pair \<noteq> None then result @ [pair] else result)"

definition Devices :: "DeviceManager \<Rightarrow> device_alias_pair list" where
  "Devices s = Devices_loop (m_devices s) []"

definition GetDevice_alias :: "DeviceManager \<Rightarrow> uint \<Rightarrow> device_ptr option" where
  "GetDevice_alias s a = m_alias_map s a"

definition GetDevice :: "DeviceManager \<Rightarrow> string \<Rightarrow> device_alias_pair" where
  "GetDevice s unique_id =
     (case map_of (m_devices s) unique_id of
        None \<Rightarrow> \<lparr>pair_alias = MISSING_DEVICE_ALIAS, pair_device = None\<rparr>
      | Some pair \<Rightarrow>
          if pair_device pair \<noteq> None then pair
          else \<lparr>pair_alias = MISSING_DEVICE_ALIAS, pair_device = None\<rparr>)"

subsubsection \<open>\<^verbatim>\<open>UnregisterAllDevices\<close>\<close>

fun UnregisterAll_loop ::
    "(string \<times> device_alias_pair) list \<Rightarrow> DeviceManager
      \<Rightarrow> (string \<times> device_alias_pair) list \<times> DeviceManager" where
  "UnregisterAll_loop [] s = ([], s)"
| "UnregisterAll_loop ((k, pair) # xs) s =
     (let (ys, s') = UnregisterAll_loop xs (SaveDevicePortPatchings s (pair_device pair))
      in ((k, pair\<lparr>pair_device := None\<rparr>) # ys, s'))"

definition UnregisterAllDevices :: "DeviceManager \<Rightarrow> DeviceManager" where
  "UnregisterAllDevices s =
     (let (ds, s') = UnregisterAll_loop (m_devices s) s
      in s'\<lparr>m_devices := ds, m_alias_map := Map.empty\<rparr>)"

subsection \<open>Sequences of calls\<close>

datatype operation =
    Register "device_ptr option"
  | Unregister string
  | UnregisterPtr "device_ptr option"
  | UnregisterAll

fun step :: "platform \<Rightarrow> DeviceManager \<Rightarrow> operation \<Rightarrow> DeviceManager" where
  "step pf s (Register dev) = snd (RegisterDevice pf s dev)"
| "step pf s (Unregister device_id) = snd (UnregisterDevice s device_id)"
| "step pf s (UnregisterPtr dev) = snd (UnregisterDevice_ptr s dev)"
| "step pf s UnregisterAll = UnregisterAllDevices s"

definition run :: "platform \<Rightarrow> DeviceManager \<Rightarrow> operation list \<Rightarrow> DeviceManager" where
  "run pf s ops = foldl (step pf) s ops"

text \<open>Ports are patched and unpatched outside the manager. \<open>repatch f\<close> is any such
  change: afterwards the port at \<open>q\<close> is bound to \<open>f q\<close>; the unique ids stay.\<close>

definition repatch :: "(port_ptr \<Rightarrow> cint option) \<Rightarrow> DeviceManager \<Rightarrow> DeviceManager" where
  "repatch f s = s\<lparr>heap_ports := (\<lambda>q. (heap_ports s q)\<lparr>port_Universe := f q\<rparr>)\<rparr>"

subsection \<open>Reading the state\<close>

text \<open>The alias an Identity Record holds for a unique id, and the unique ids whose record
  has a device (the active ones).\<close>

definition alias_of :: "DeviceManager \<Rightarrow> string \<Rightarrow> uint option" where
  "alias_of s unique_id = map_option pair_alias (map_of (m_devices s) unique_id)"

definition is_active :: "string \<times> device_alias_pair \<Rightarrow> bool" where
  "is_active e = (pair_device (snd e) \<noteq> None)"

text \<open>What the Preference Store holds under a key; nothing when there is no store.\<close>

definition stored_value :: "DeviceManager \<Rightarrow> string \<Rightarrow> string option" where
  "stored_value s key = (case m_port_preferences s of None \<Rightarrow> None | Some prefs \<Rightarrow> prefs key)"

definition active_ids :: "DeviceManager \<Rightarrow> string set" where
  "active_ids s = set (map fst (filter is_active (m_devices s)))"

text \<open>The spec's own reading of "currently registered", replayed over the calls without
  the manager: a registration of a non-empty unique id makes it registered, an
  unregistration ends that, and unregistering all ends it for every id.\<close>

fun registered_step ::
    "(device_ptr \<Rightarrow> AbstractDevice) \<Rightarrow> string set \<Rightarrow> operation \<Rightarrow> string set" where
  "registered_step devs R (Register None) = R"
| "registered_step devs R (Register (Some d)) =
     (if dev_UniqueId (devs d) = [] then R else insert (dev_UniqueId (devs d)) R)"
| "registered_step devs R (Unregister device_id) = R - {device_id}"
| "registered_step devs R (UnregisterPtr None) = R"
| "registered_step devs R (UnregisterPtr (Some d)) = R - {dev_UniqueId (devs d)}"
| "registered_step devs R UnregisterAll = {}"

definition registered_ids ::
    "(device_ptr \<Rightarrow> AbstractDevice) \<Rightarrow> operation list \<Rightarrow> string set" where
  "registered_ids devs ops = foldl (registered_step devs) {} ops"

subsection \<open>Invariants of the manager\<close>

text \<open>The records have distinct keys, the counter is the first alias plus the number of
  records, and the aliases of the records are the first alias, the next one, and so on,
  one per record (all in 32-bit arithmetic).\<close>

definition records_inv :: "DeviceManager \<Rightarrow> bool" where
  "records_inv s =
     (distinct (map fst (m_devices s))
      \<and> [] \<notin> set (map fst (m_devices s))
      \<and> m_next_device_alias s = FIRST_DEVICE_ALIAS + of_nat (length (m_devices s))
      \<and> mset (map (pair_alias \<circ> snd) (m_devices s)) =
          mset (map (\<lambda>i. FIRST_DEVICE_ALIAS + of_nat i) [0..<length (m_devices s)]))"

text \<open>Every entry of the alias map is the alias and the device of a record.\<close>

definition alias_map_sound :: "DeviceManager \<Rightarrow> bool" where
  "alias_map_sound s =
     (\<forall>a d. m_alias_map s a = Some d \<longrightarrow>
        (\<exists>k. map_of (m_devices s) k = Some \<lparr>pair_alias = a, pair_device = Some d\<rparr>))"

text \<open>Every record with a device has its entry in the alias map.\<close>

definition alias_map_complete :: "DeviceManager \<Rightarrow> bool" where
  "alias_map_complete s =
     (\<forall>k pair d. map_of (m_devices s) k = Some pair \<and> pair_device pair = Some d \<longrightarrow>
        m_alias_map s (pair_alias pair) = Some d)"

text \<open>What \<open>UnregisterAllDevices\<close> leaves of the records.\<close>

definition clear_devices ::
    "(string \<times> device_alias_pair) list \<Rightarrow> (string \<times> device_alias_pair) list" where
  "clear_devices xs = map (\<lambda>e. (fst e, (snd e)\<lparr>pair_device := None\<rparr>)) xs"

subsection \<open>Two concrete worlds\<close>

text \<open>The spec's scenario: devices \<open>usb-1\<close>, \<open>usb-2\<close> and \<open>usb-3\<close> at addresses 1, 2 and
  3; \<open>usb-1\<close> has the port \<open>portA\<close> at address 10, patched to universe 7, and a port
  without unique id at address 11. Every other address holds a device without unique
  id.\<close>

definition demo_devices :: "device_ptr \<Rightarrow> AbstractDevice" where
  "demo_devices d =
     (if d = 1 then \<lparr>dev_UniqueId = ''usb-1'', dev_Name = ''first'', dev_Ports = [10, 11]\<rparr>
      else if d = 2 then \<lparr>dev_UniqueId = ''usb-2'', dev_Name = ''second'', dev_Ports = []\<rparr>
      else if d = 3 then \<lparr>dev_UniqueId = ''usb-3'', dev_Name = ''third'', dev_Ports = []\<rparr>
      else \<lparr>dev_UniqueId = [], dev_Name = [], dev_Ports = []\<rparr>)"

definition demo_ports :: "port_ptr \<Rightarrow> AbstractPort" where
  "demo_ports p =
     (if p = 10 then \<lparr>port_UniqueId = ''portA'', port_Universe = Some 7\<rparr>
      else \<lparr>port_UniqueId = [], port_Universe = None\<rparr>)"

definition demo_manager :: DeviceManager where
  "demo_manager = DeviceManager_new (Some Map.empty) {} demo_devices demo_ports"

definition unpatched :: "port_ptr \<Rightarrow> AbstractPort" where
  "unpatched p =
     (if p = 10 then \<lparr>port_UniqueId = ''portA'', port_Universe = None\<rparr>
      else \<lparr>port_UniqueId = [], port_Universe = None\<rparr>)"

text \<open>The scenario's devices with \<open>portA\<close> unpatched, and a Preference Store that holds a
  value for \<open>portA\<close>.\<close>

definition stored_manager :: "string \<Rightarrow> DeviceManager" where
  "stored_manager v =
     DeviceManager_new (Some [''portA'' \<mapsto> v]) {} demo_devices unpatched"

text \<open>The scenario after \<open>usb-1\<close> has been registered.\<close>

definition usb1_registered :: DeviceManager where
  "usb1_registered = snd (RegisterDevice glibc_lp64 demo_manager (Some 1))"

text \<open>The same devices where both ports of \<open>usb-1\<close> have the unique id \<open>portA\<close>: the
  port at address 10 is patched to universe 7, the port at address 11 to universe 8.
  \<open>unbind_10\<close> unpatches the port at address 10 and leaves the other on universe 8.\<close>

definition shared_ports :: "port_ptr \<Rightarrow> AbstractPort" where
  "shared_ports p =
     (if p = 10 then \<lparr>port_UniqueId = ''portA'', port_Universe = Some 7\<rparr>
      else if p = 11 then \<lparr>port_UniqueId = ''portA'', port_Universe = Some 8\<rparr>
      else \<lparr>port_UniqueId = [], port_Universe = None\<rparr>)"

definition shared_manager :: DeviceManager where
  "shared_manager = DeviceManager_new (Some Map.empty) {} demo_devices shared_ports"

definition shared_registered :: DeviceManager where
  "shared_registered = snd (RegisterDevice glibc_lp64 shared_manager (Some 1))"


text \<open>The spec's scenario as calls: \<open>usb-1\<close> and \<open>usb-2\<close> register; then \<open>usb-1\<close>
  unregisters and registers again, and \<open>usb-3\<close> registers.\<close>

definition scenario_start :: "operation list" where
  "scenario_start = [Register (Some 1), Register (Some 2)]"

definition scenario_rest :: "operation list" where
  "scenario_rest = [Unregister ''usb-1'', Register (Some 1), Register (Some 3)]"

text \<open>A world with as many devices as there are addresses: the device at address \<open>n\<close>
  has the unique id of \<open>n + 1\<close> letters \<open>a\<close> and no port. \<open>register_upto n\<close> registers
  the devices at the addresses below \<open>n\<close>, in order.\<close>

definition many_devices :: "device_ptr \<Rightarrow> AbstractDevice" where
  "many_devices n = \<lparr>dev_UniqueId = replicate (Suc n) CHR ''a'', dev_Name = [], dev_Ports = []\<rparr>"

definition no_ports :: "port_ptr \<Rightarrow> AbstractPort" where
  "no_ports p = \<lparr>port_UniqueId = [], port_Universe = None\<rparr>"

definition many_manager :: DeviceManager where
  "many_manager = DeviceManager_new None {} many_devices no_ports"

primrec register_upto :: "nat \<Rightarrow> operation list" where
  "register_upto 0 = []"
| "register_upto (Suc n) = register_upto n @ [Register (Some n)]"

section \<open>Proofs\<close>

subsection \<open>What the save and the restore leave alone\<close>

lemma Save_frame [simp]:
  "m_devices (SaveDevicePortPatchings s dev) = m_devices s"
  "m_alias_map (SaveDevicePortPatchings s dev) = m_alias_map s"
  "m_next_device_alias (SaveDevicePortPatchings s dev) = m_next_device_alias s"
  "m_universe_store (SaveDevicePortPatchings s dev) = m_universe_store s"
  "heap_devices (SaveDevicePortPatchings s dev) = heap_devices s"
  "heap_ports (SaveDevicePortPatchings s dev) = heap_ports s"
  by (simp_all add: SaveDevicePortPatchings_def split: option.splits)

lemma Restore_frame [simp]:
  "m_devices (RestoreDevicePortPatchings pf s dev) = m_devices s"
  "m_alias_map (RestoreDevicePortPatchings pf s dev) = m_alias_map s"
  "m_next_device_alias (RestoreDevicePortPatchings pf s dev) = m_next_device_alias s"
  "m_port_preferences (RestoreDevicePortPatchings pf s dev) = m_port_preferences s"
  "heap_devices (RestoreDevicePortPatchings pf s dev) = heap_devices s"
  by (simp_all add: RestoreDevicePortPatchings_def split: option.splits prod.splits)

subsection \<open>The association list as a map\<close>

lemma map_of_set_device:
  "map_of (set_device k d xs) =
     (\<lambda>u. if u = k then map_option (\<lambda>pair. pair\<lparr>pair_device := d\<rparr>) (map_of xs k)
          else map_of xs u)"
  by (induction xs) (auto simp: fun_eq_iff)

lemma keys_set_device [simp]: "map fst (set_device k d xs) = map fst xs"
  by (induction xs) auto

lemma aliases_set_device [simp]:
  "map (pair_alias \<circ> snd) (set_device k d xs) = map (pair_alias \<circ> snd) xs"
  by (induction xs) auto

lemma length_set_device [simp]: "length (set_device k d xs) = length xs"
  by (induction xs) auto

lemma map_of_map_insert: "map_of (map_insert k v xs) = (map_of xs)(k \<mapsto> v)"
  by (induction xs) (auto simp: fun_eq_iff)

subsection \<open>Registration fails without a trace\<close>

text \<open>
  C3. \<open>RegisterDevice\<close> returns false exactly when the device pointer is null, the
  device's unique id is empty, or a record for that unique id exists and holds a device;
  and whenever it returns false the whole state, records, alias map, alias counter and
  preferences included, is what it was.
\<close>

theorem RegisterDevice_fails_iff:
  "(\<not> fst (RegisterDevice pf s dev)) =
     (case dev of
        None \<Rightarrow> True
      | Some d \<Rightarrow>
          dev_UniqueId (heap_devices s d) = [] \<or>
          (case map_of (m_devices s) (dev_UniqueId (heap_devices s d)) of
             None \<Rightarrow> False
           | Some pair \<Rightarrow> pair_device pair \<noteq> None))
   \<and> (\<not> fst (RegisterDevice pf s dev) \<longrightarrow> snd (RegisterDevice pf s dev) = s)"
  by (auto simp: RegisterDevice_def install_device_def Let_def split: option.splits)

text \<open>Registering \<open>usb-2\<close> a second time fails and changes nothing.\<close>

theorem RegisterDevice_fails_iff_witness:
  "\<not> fst (RegisterDevice glibc_lp64
            (snd (RegisterDevice glibc_lp64 demo_manager (Some 2))) (Some 2))
   \<and> snd (RegisterDevice glibc_lp64
            (snd (RegisterDevice glibc_lp64 demo_manager (Some 2))) (Some 2))
       = snd (RegisterDevice glibc_lp64 demo_manager (Some 2))"
  using RegisterDevice_fails_iff
    [of glibc_lp64 "snd (RegisterDevice glibc_lp64 demo_manager (Some 2))" "Some 2"]
  by (simp add: RegisterDevice_def install_device_def demo_manager_def DeviceManager_new_def
      demo_devices_def RestoreDevicePortPatchings_def)

subsection \<open>Decimal strings and \<^verbatim>\<open>strtol\<close>\<close>

lemma of_char_digit: "n < 10 \<Longrightarrow> (of_char (char_of (48 + n)) :: nat) = 48 + n"
  by simp

lemma dec_digits_all_digits: "c \<in> set (dec_digits n) \<Longrightarrow> isdigit c"
proof (induction n rule: dec_digits.induct)
  case (1 n)
  show ?case
  proof (cases "n < 10")
    case True
    with "1.prems" show ?thesis
      by (simp add: dec_digits.simps [of n] isdigit_def)
  next
    case False
    have m: "n mod 10 < 10" by simp
    from False "1.prems" have "c \<in> set (dec_digits (n div 10)) \<or> c = char_of (48 + n mod 10)"
      by (auto simp: dec_digits.simps [of n])
    then show ?thesis
    proof
      assume "c \<in> set (dec_digits (n div 10))"
      with False "1.IH" show ?thesis by simp
    next
      assume "c = char_of (48 + n mod 10)"
      with m show ?thesis by (simp add: isdigit_def of_char_digit del: of_char_of)
    qed
  qed
qed

lemma dec_digits_nonempty: "dec_digits n \<noteq> []"
  by (subst dec_digits.simps) simp

lemma digits_value_snoc:
  "digits_value acc (cs @ [c]) = 10 * digits_value acc cs + (int (of_char c) - 48)"
  by (induction cs arbitrary: acc) simp_all

lemma digits_value_dec_digits: "digits_value 0 (dec_digits n) = int n"
proof (induction n rule: dec_digits.induct)
  case (1 n)
  show ?case
  proof (cases "n < 10")
    case True
    then show ?thesis by (simp add: dec_digits.simps [of n])
  next
    case False
    with "1.IH" have "digits_value 0 (dec_digits (n div 10)) = int (n div 10)" by simp
    moreover have "10 * int (n div 10) + int (n mod 10) = int n" by presburger
    ultimately show ?thesis using False
      by (simp add: dec_digits.simps [of n] digits_value_snoc)
  qed
qed

lemma isdigit_not_space: "isdigit c \<Longrightarrow> \<not> isspace c"
  by (auto simp: isdigit_def isspace_def)

lemma isdigit_not_sign: "isdigit c \<Longrightarrow> c \<noteq> CHR ''-'' \<and> c \<noteq> CHR ''+''"
  by (auto simp: isdigit_def)

lemma takeWhile_dec_digits: "takeWhile isdigit (dec_digits n) = dec_digits n"
  by (simp add: takeWhile_eq_all_conv dec_digits_all_digits)

lemma strtol_dec_digits:
  assumes "int n \<le> LONG_MAX (long_model pf)"
  shows "strtol pf (dec_digits n) = (int n, None)"
proof -
  obtain c cs where cs: "dec_digits n = c # cs"
    using dec_digits_nonempty [of n] by (cases "dec_digits n") auto
  then have "isdigit c" using dec_digits_all_digits [of c n] by simp
  then have c: "\<not> isspace c" "c \<noteq> CHR ''-''" "c \<noteq> CHR ''+''"
    using isdigit_not_space isdigit_not_sign by auto
  have sign: "strtol_sign (dropWhile isspace (dec_digits n)) = (False, dec_digits n)"
    using c by (simp add: cs strtol_sign_def)
  have "LONG_MIN (long_model pf) \<le> int n" by (cases "long_model pf") simp_all
  with assms show ?thesis
    unfolding strtol_def sign
    by (simp add: takeWhile_dec_digits dec_digits_nonempty digits_value_dec_digits)
qed

lemma strtol_minus_dec_digits:
  assumes "LONG_MIN (long_model pf) \<le> - int n"
  shows "strtol pf (CHR ''-'' # dec_digits n) = (- int n, None)"
proof -
  have sp: "\<not> isspace CHR ''-''" by (simp add: isspace_def)
  have sign: "strtol_sign (dropWhile isspace (CHR ''-'' # dec_digits n)) = (True, dec_digits n)"
    using sp by (simp add: strtol_sign_def)
  have "- int n \<le> LONG_MAX (long_model pf)" by (cases "long_model pf") simp_all
  with assms show ?thesis
    unfolding strtol_def sign
    by (simp add: takeWhile_dec_digits dec_digits_nonempty digits_value_dec_digits)
qed

lemma sint_32_range: "- 2147483648 \<le> sint (w :: 32 word) \<and> sint w \<le> 2147483647"
  using sint_ge [of w] sint_lt [of w] by simp

lemma strtol_IntToString: "strtol pf (IntToString u) = (sint u, None)"
proof (cases "sint u < 0")
  case True
  have "LONG_MIN (long_model pf) \<le> - int (nat (- sint u))"
    using True sint_32_range [of u] by (cases "long_model pf") simp_all
  from strtol_minus_dec_digits [OF this] True show ?thesis
    by (simp add: IntToString_def)
next
  case False
  have "int (nat (sint u)) \<le> LONG_MAX (long_model pf)"
    using False sint_32_range [of u] by (cases "long_model pf") simp_all
  from strtol_dec_digits [OF this] False show ?thesis
    by (simp add: IntToString_def)
qed

lemma IntToString_nonempty: "IntToString u \<noteq> []"
  by (simp add: IntToString_def dec_digits_nonempty)

subsection \<open>The save loop\<close>

lemma save_port_other:
  "k = [] \<or> k \<noteq> port_UniqueId (hp q) \<Longrightarrow> save_port hp q prefs k = prefs k"
  by (auto simp: save_port_def SetValue_def RemoveValue_def split: option.splits)

lemma save_port_key:
  "port_UniqueId (hp p) \<noteq> [] \<Longrightarrow>
     save_port hp p prefs (port_UniqueId (hp p)) = map_option IntToString (port_Universe (hp p))"
  by (auto simp: save_port_def SetValue_def RemoveValue_def split: option.splits)

lemma save_ports_other:
  "k = [] \<or> k \<notin> set (map (\<lambda>q. port_UniqueId (hp q)) ps) \<Longrightarrow>
     save_ports hp ps prefs k = prefs k"
  by (induction ps arbitrary: prefs) (auto simp: save_port_other)

lemma save_ports_key:
  assumes "p \<in> set ps" and "port_UniqueId (hp p) \<noteq> []"
    and "\<forall>q\<in>set ps. port_UniqueId (hp q) = port_UniqueId (hp p) \<longrightarrow> q = p"
  shows "save_ports hp ps prefs (port_UniqueId (hp p)) =
    map_option IntToString (port_Universe (hp p))"
  using assms
proof (induction ps arbitrary: prefs)
  case Nil
  then show ?case by simp
next
  case (Cons q ps)
  show ?case
  proof (cases "p \<in> set ps")
    case True
    with Cons.prems have "save_ports hp ps (save_port hp q prefs) (port_UniqueId (hp p)) =
        map_option IntToString (port_Universe (hp p))"
      by (intro Cons.IH) auto
    then show ?thesis by simp
  next
    case False
    with Cons.prems have q: "q = p" by simp
    from False Cons.prems
    have "port_UniqueId (hp p) \<notin> set (map (\<lambda>q. port_UniqueId (hp q)) ps)"
      by auto
    then have "save_ports hp ps (save_port hp p prefs) (port_UniqueId (hp p)) =
        save_port hp p prefs (port_UniqueId (hp p))"
      by (simp add: save_ports_other)
    with Cons.prems(2) show ?thesis
      by (simp add: q save_port_key)
  qed
qed

lemma save_ports_key_some:
  assumes "p \<in> set ps" and "port_UniqueId (hp p) \<noteq> []"
  shows "\<exists>q\<in>set ps. port_UniqueId (hp q) = port_UniqueId (hp p)
    \<and> save_ports hp ps prefs (port_UniqueId (hp p))
        = map_option IntToString (port_Universe (hp q))"
  using assms
proof (induction ps arbitrary: prefs p)
  case Nil
  then show ?case by simp
next
  case (Cons r ps)
  show ?case
  proof (cases "port_UniqueId (hp p) \<in> set (map (\<lambda>q. port_UniqueId (hp q)) ps)")
    case True
    then obtain p' where p': "p' \<in> set ps" "port_UniqueId (hp p') = port_UniqueId (hp p)"
      by auto
    with Cons.prems(2) have "port_UniqueId (hp p') \<noteq> []" by simp
    from Cons.IH [OF p'(1) this, of "save_port hp r prefs"] p'(2)
    show ?thesis by auto
  next
    case False
    with Cons.prems(1) have r: "r = p" by auto
    from False have "save_ports hp ps (save_port hp p prefs) (port_UniqueId (hp p))
        = save_port hp p prefs (port_UniqueId (hp p))"
      by (simp add: save_ports_other)
    with Cons.prems(2) have "save_ports hp (r # ps) prefs (port_UniqueId (hp p))
        = map_option IntToString (port_Universe (hp p))"
      by (simp add: r save_port_key)
    then show ?thesis using r by auto
  qed
qed

subsection \<open>The restore loop\<close>

lemma restore_port_ids:
  "port_UniqueId (snd (restore_port pf prefs p w) q) = port_UniqueId (snd w q)"
  by (cases w)
    (simp add: restore_port_def Let_def AddPort_def GetUniverseOrCreate_def split: prod.splits)

lemma restore_port_other:
  "q \<noteq> p \<Longrightarrow> snd (restore_port pf prefs p w) q = snd w q"
  by (cases w)
    (simp add: restore_port_def Let_def AddPort_def GetUniverseOrCreate_def split: prod.splits)

lemma restore_port_store: "u \<in> fst w \<Longrightarrow> u \<in> fst (restore_port pf prefs p w)"
  by (cases w)
    (simp add: restore_port_def Let_def AddPort_def GetUniverseOrCreate_def split: prod.splits)

lemma restore_port_binds:
  assumes "port_UniqueId (snd w p) \<noteq> []"
    and "GetValue prefs (port_UniqueId (snd w p)) \<noteq> []"
    and "strtol pf (GetValue prefs (port_UniqueId (snd w p))) = (r, e)"
    and "word_of_int r \<noteq> (0 :: cint) \<or> e = None"
  shows "port_Universe (snd (restore_port pf prefs p w) p) = Some (word_of_int r)
    \<and> word_of_int r \<in> fst (restore_port pf prefs p w)"
  using assms
  by (cases w)
    (auto simp: restore_port_def Let_def AddPort_def GetUniverseOrCreate_def)

lemma restore_ports_ids:
  "port_UniqueId (snd (restore_ports pf prefs ps w) q) = port_UniqueId (snd w q)"
  by (induction ps arbitrary: w) (simp_all add: restore_port_ids)

lemma restore_ports_other:
  "q \<notin> set ps \<Longrightarrow> snd (restore_ports pf prefs ps w) q = snd w q"
  by (induction ps arbitrary: w) (simp_all add: restore_port_other)

lemma restore_ports_store: "u \<in> fst w \<Longrightarrow> u \<in> fst (restore_ports pf prefs ps w)"
  by (induction ps arbitrary: w) (simp_all add: restore_port_store)

text \<open>A port that is bound to what its stored value parses to stays so, whatever ports
  the loop still visits.\<close>

lemma restore_ports_keeps:
  assumes "port_UniqueId (snd w p) \<noteq> []"
    and "GetValue prefs (port_UniqueId (snd w p)) \<noteq> []"
    and "strtol pf (GetValue prefs (port_UniqueId (snd w p))) = (r, e)"
    and "word_of_int r \<noteq> (0 :: cint) \<or> e = None"
    and "port_Universe (snd w p) = Some (word_of_int r)" and "word_of_int r \<in> fst w"
  shows "port_Universe (snd (restore_ports pf prefs ps w) p) = Some (word_of_int r)
    \<and> word_of_int r \<in> fst (restore_ports pf prefs ps w)"
  using assms
proof (induction ps arbitrary: w)
  case Nil
  then show ?case by simp
next
  case (Cons q ps)
  have "port_Universe (snd (restore_port pf prefs q w) p) = Some (word_of_int r)
      \<and> word_of_int r \<in> fst (restore_port pf prefs q w)"
  proof (cases "q = p")
    case True
    with Cons.prems show ?thesis using restore_port_binds [of w p prefs pf r e] by simp
  next
    case False
    with Cons.prems show ?thesis by (simp add: restore_port_other restore_port_store)
  qed
  with Cons.prems show ?case
    by (simp add: restore_port_ids Cons.IH)
qed

lemma restore_ports_binds:
  assumes "p \<in> set ps" and "port_UniqueId (snd w p) \<noteq> []"
    and "GetValue prefs (port_UniqueId (snd w p)) \<noteq> []"
    and "strtol pf (GetValue prefs (port_UniqueId (snd w p))) = (r, e)"
    and "word_of_int r \<noteq> (0 :: cint) \<or> e = None"
  shows "port_Universe (snd (restore_ports pf prefs ps w) p) = Some (word_of_int r)
    \<and> word_of_int r \<in> fst (restore_ports pf prefs ps w)"
  using assms
proof (induction ps arbitrary: w)
  case Nil
  then show ?case by simp
next
  case (Cons q ps)
  show ?case
  proof (cases "q = p")
    case True
    from Cons.prems have "port_Universe (snd (restore_port pf prefs p w) p) = Some (word_of_int r)
        \<and> word_of_int r \<in> fst (restore_port pf prefs p w)"
      by (intro restore_port_binds [where e = e]) auto
    with Cons.prems True show ?thesis
      using restore_ports_keeps [of "restore_port pf prefs p w" p prefs pf r e ps]
      by (simp add: restore_port_ids)
  next
    case False
    with Cons.prems show ?thesis
      by (simp add: restore_port_ids Cons.IH)
  qed
qed

subsection \<open>What the restore does with a stored value\<close>

lemma Restore_Some:
  "m_port_preferences s = Some prefs \<Longrightarrow>
     RestoreDevicePortPatchings pf s (Some d) =
       s\<lparr>m_universe_store :=
           fst (restore_ports pf prefs (dev_Ports (heap_devices s d))
             (m_universe_store s, heap_ports s)),
         heap_ports :=
           snd (restore_ports pf prefs (dev_Ports (heap_devices s d))
             (m_universe_store s, heap_ports s))\<rparr>"
  by (simp add: RestoreDevicePortPatchings_def split: prod.splits)

lemma Save_Some:
  "m_port_preferences s = Some prefs \<Longrightarrow>
     SaveDevicePortPatchings s (Some d) =
       s\<lparr>m_port_preferences :=
           Some (save_ports (heap_ports s) (dev_Ports (heap_devices s d)) prefs)\<rparr>"
  by (simp add: SaveDevicePortPatchings_def)

lemma RestoreDevicePortPatchings_binds:
  assumes "m_port_preferences s = Some prefs"
    and "p \<in> set (dev_Ports (heap_devices s d))"
    and "port_UniqueId (heap_ports s p) \<noteq> []"
    and "GetValue prefs (port_UniqueId (heap_ports s p)) \<noteq> []"
    and "strtol pf (GetValue prefs (port_UniqueId (heap_ports s p))) = (r, e)"
    and "word_of_int r \<noteq> (0 :: cint) \<or> e = None"
  shows "port_Universe (heap_ports (RestoreDevicePortPatchings pf s (Some d)) p)
      = Some (word_of_int r)
    \<and> word_of_int r \<in> m_universe_store (RestoreDevicePortPatchings pf s (Some d))"
  using assms
    restore_ports_binds [of p "dev_Ports (heap_devices s d)" "(m_universe_store s, heap_ports s)"
      prefs pf r e]
  by (simp add: Restore_Some)

lemma strtol_zero: "strtol pf ''0'' = (0, None)"
  by (cases "long_model pf") (simp_all add: strtol_def strtol_sign_def isspace_def isdigit_def)

text \<open>
  C10. When the Preference Store holds exactly \<open>0\<close> under the non-empty unique id of a
  port of the device, \<open>RestoreDevicePortPatchings\<close> does not skip the port: afterwards
  universe 0 is in the Universe Store and the port is bound to it. This holds on every
  platform of the model.
\<close>

theorem restore_stored_zero:
  assumes "m_port_preferences s = Some prefs"
    and "p \<in> set (dev_Ports (heap_devices s d))"
    and "port_UniqueId (heap_ports s p) \<noteq> []"
    and "prefs (port_UniqueId (heap_ports s p)) = Some ''0''"
  shows "port_Universe (heap_ports (RestoreDevicePortPatchings pf s (Some d)) p) = Some 0
    \<and> 0 \<in> m_universe_store (RestoreDevicePortPatchings pf s (Some d))"
proof -
  have v: "GetValue prefs (port_UniqueId (heap_ports s p)) = ''0''"
    using assms(4) by (simp add: GetValue_def)
  show ?thesis
    using RestoreDevicePortPatchings_binds [OF assms(1-3), of pf 0 None]
    by (simp add: v strtol_zero)
qed

text \<open>With \<open>portA\<close> stored as \<open>0\<close>, unpatched and no universe in the store, the restore
  for \<open>usb-1\<close> creates universe 0 and binds the port to it.\<close>

theorem restore_stored_zero_witness:
  "port_Universe (heap_ports (stored_manager ''0'') 10) = None
   \<and> 0 \<notin> m_universe_store (stored_manager ''0'')
   \<and> port_Universe
        (heap_ports (RestoreDevicePortPatchings glibc_lp64 (stored_manager ''0'') (Some 1)) 10)
       = Some 0
   \<and> 0 \<in> m_universe_store (RestoreDevicePortPatchings glibc_lp64 (stored_manager ''0'') (Some 1))"
  using restore_stored_zero [of "stored_manager ''0''" "[''portA'' \<mapsto> ''0'']" 10 1 glibc_lp64]
  by (simp add: stored_manager_def DeviceManager_new_def demo_devices_def unpatched_def)

text \<open>
  C5. The claim is that a stored value that does not parse is skipped: the port stays
  unpatched and no universe is requested. The code tests \<^verbatim>\<open>id == 0 && errno\<close>, and
  \<^verbatim>\<open>strtol\<close> of glibc leaves \<^verbatim>\<open>errno\<close> alone when it finds no digit. So with \<open>abc\<close>
  stored for \<open>portA\<close>, registering \<open>usb-1\<close> creates universe 0 and binds the unpatched
  port to it.
\<close>

theorem malformed_value_not_skipped:
  "port_Universe (heap_ports (stored_manager ''abc'') 10) = None
   \<and> port_Universe
        (heap_ports (snd (RegisterDevice glibc_lp64 (stored_manager ''abc'') (Some 1))) 10)
       = Some 0
   \<and> m_universe_store (snd (RegisterDevice glibc_lp64 (stored_manager ''abc'') (Some 1))) = {0}"
  by (simp add: stored_manager_def DeviceManager_new_def demo_devices_def unpatched_def
      RegisterDevice_def install_device_def RestoreDevicePortPatchings_def restore_port_def
      GetValue_def strtol_def strtol_sign_def isspace_def isdigit_def glibc_lp64_def
      GetUniverseOrCreate_def AddPort_def)

text \<open>Where the libc sets \<^verbatim>\<open>EINVAL\<close> for a failed conversion, the same value is skipped
  and the port stays unpatched.\<close>

lemma malformed_value_skipped_with_einval:
  "port_Universe
     (heap_ports
        (snd (RegisterDevice \<lparr>long_model = LP64, noconv_einval = True\<rparr>
           (stored_manager ''abc'') (Some 1))) 10) = None
   \<and> m_universe_store
        (snd (RegisterDevice \<lparr>long_model = LP64, noconv_einval = True\<rparr>
           (stored_manager ''abc'') (Some 1))) = {}"
  by (simp add: stored_manager_def DeviceManager_new_def demo_devices_def unpatched_def
      RegisterDevice_def install_device_def RestoreDevicePortPatchings_def restore_port_def
      GetValue_def strtol_def strtol_sign_def isspace_def isdigit_def)

text \<open>A number too large for \<^verbatim>\<open>long\<close> is not skipped either, on any platform of the
  model: \<^verbatim>\<open>strtol\<close> reports \<^verbatim>\<open>ERANGE\<close>, but the clamped value is not 0 as an \<^verbatim>\<open>int\<close>.\<close>

lemma out_of_range_value_not_skipped:
  "port_Universe
     (heap_ports (snd (RegisterDevice pf (stored_manager ''99999999999999999999'') (Some 1))) 10)
     = Some (case long_model pf of ILP32 \<Rightarrow> 2147483647 | LP64 \<Rightarrow> - 1)"
  by (cases "long_model pf")
    (simp_all add: stored_manager_def DeviceManager_new_def demo_devices_def unpatched_def
      RegisterDevice_def install_device_def RestoreDevicePortPatchings_def restore_port_def
      GetValue_def strtol_def strtol_sign_def isspace_def isdigit_def
      GetUniverseOrCreate_def AddPort_def)

subsection \<open>Saving the patchings\<close>

lemma repatch_frame [simp]:
  "m_devices (repatch f s) = m_devices s"
  "m_alias_map (repatch f s) = m_alias_map s"
  "m_next_device_alias (repatch f s) = m_next_device_alias s"
  "m_port_preferences (repatch f s) = m_port_preferences s"
  "m_universe_store (repatch f s) = m_universe_store s"
  "heap_devices (repatch f s) = heap_devices s"
  "port_UniqueId (heap_ports (repatch f s) q) = port_UniqueId (heap_ports s q)"
  "port_Universe (heap_ports (repatch f s) q) = f q"
  by (simp_all add: repatch_def)

lemma IntToString_7: "IntToString 7 = ''7''"
  by code_simp

lemma word_of_int_sint_32: "word_of_int (sint (u :: cint)) = u"
  by simp

lemma usb1_registered_fields:
  "m_port_preferences usb1_registered = Some Map.empty"
  "heap_devices usb1_registered = demo_devices"
  "heap_ports usb1_registered = demo_ports"
  "map_of (m_devices usb1_registered) ''usb-1'' = Some \<lparr>pair_alias = 1, pair_device = Some 1\<rparr>"
  by (simp_all add: usb1_registered_def RegisterDevice_def install_device_def demo_manager_def
      DeviceManager_new_def demo_devices_def demo_ports_def FIRST_DEVICE_ALIAS_def
      RestoreDevicePortPatchings_def restore_port_def GetValue_def)

lemma stored_value_Some [simp]:
  "m_port_preferences s = Some prefs \<Longrightarrow> stored_value s key = prefs key"
  by (simp add: stored_value_def)


lemma shared_registered_fields:
  "m_port_preferences shared_registered = Some Map.empty"
  "heap_devices shared_registered = demo_devices"
  "heap_ports shared_registered = shared_ports"
  "map_of (m_devices shared_registered) ''usb-1'' = Some \<lparr>pair_alias = 1, pair_device = Some 1\<rparr>"
  "m_devices shared_registered = [(''usb-1'', \<lparr>pair_alias = 1, pair_device = Some 1\<rparr>)]"
  by (simp_all add: shared_registered_def RegisterDevice_def install_device_def shared_manager_def
      DeviceManager_new_def demo_devices_def shared_ports_def FIRST_DEVICE_ALIAS_def
      RestoreDevicePortPatchings_def restore_port_def GetValue_def)

lemma usb1_registered_alias_map: "m_alias_map usb1_registered 1 = Some 1"
  by (simp add: usb1_registered_def RegisterDevice_def install_device_def demo_manager_def
      DeviceManager_new_def demo_devices_def FIRST_DEVICE_ALIAS_def)




subsection \<open>Unregistration\<close>

text \<open>
  C4. Both overloads of \<open>UnregisterDevice\<close> return false exactly when no active record
  matches: the record is absent or its device is null, or, for the pointer overload, the
  pointer is null or the device's unique id is empty; a call that returns false returns
  the state it was given. A successful call on the pointer overload is the call on the
  device's unique id. When the record of \<open>device_id\<close> holds the device \<open>d\<close>, the call
  succeeds: the record's alias is gone from the alias map, the record remains under its
  key with its alias and a null device, and the counter, the Universe Store, the ports
  and the devices are as before. The preferences are those \<open>SaveDevicePortPatchings\<close>
  writes for \<open>d\<close> in the state before the call: none without a Preference Store, and
  otherwise the result of the loop over the ports of \<open>d\<close>, so that under the non-empty
  unique id of each port of \<open>d\<close> the store then holds what a port of \<open>d\<close> with that
  unique id is patched to (nothing when unpatched, the universe's id as a decimal string
  otherwise), and what the port itself is patched to when no other port of \<open>d\<close> shares
  its unique id.
\<close>

theorem UnregisterDevice_correct:
  "((\<not> fst (UnregisterDevice s device_id)) =
      (case map_of (m_devices s) device_id of
         None \<Rightarrow> True
       | Some pair \<Rightarrow> pair_device pair = None))
   \<and> ((\<not> fst (UnregisterDevice_ptr s dev)) =
      (case dev of
         None \<Rightarrow> True
       | Some d \<Rightarrow>
           dev_UniqueId (heap_devices s d) = [] \<or>
           (case map_of (m_devices s) (dev_UniqueId (heap_devices s d)) of
              None \<Rightarrow> True
            | Some pair \<Rightarrow> pair_device pair = None)))
   \<and> (\<not> fst (UnregisterDevice s device_id) \<longrightarrow> snd (UnregisterDevice s device_id) = s)
   \<and> (\<not> fst (UnregisterDevice_ptr s dev) \<longrightarrow> snd (UnregisterDevice_ptr s dev) = s)
   \<and> (\<forall>d. fst (UnregisterDevice_ptr s (Some d)) \<longrightarrow>
         UnregisterDevice_ptr s (Some d) = UnregisterDevice s (dev_UniqueId (heap_devices s d)))
   \<and> (\<forall>pair d. map_of (m_devices s) device_id = Some pair \<and> pair_device pair = Some d \<longrightarrow>
         fst (UnregisterDevice s device_id)
         \<and> m_port_preferences (snd (UnregisterDevice s device_id)) =
             m_port_preferences (SaveDevicePortPatchings s (Some d))
         \<and> m_alias_map (snd (UnregisterDevice s device_id)) =
             (m_alias_map s)(pair_alias pair := None)
         \<and> map_of (m_devices (snd (UnregisterDevice s device_id))) =
             (map_of (m_devices s))(device_id \<mapsto> pair\<lparr>pair_device := None\<rparr>)
         \<and> map fst (m_devices (snd (UnregisterDevice s device_id))) = map fst (m_devices s)
         \<and> m_next_device_alias (snd (UnregisterDevice s device_id)) = m_next_device_alias s
         \<and> m_universe_store (snd (UnregisterDevice s device_id)) = m_universe_store s
         \<and> heap_ports (snd (UnregisterDevice s device_id)) = heap_ports s
         \<and> heap_devices (snd (UnregisterDevice s device_id)) = heap_devices s
         \<and> (m_port_preferences s = None \<longrightarrow>
               m_port_preferences (snd (UnregisterDevice s device_id)) = None)
         \<and> (\<forall>prefs. m_port_preferences s = Some prefs \<longrightarrow>
               m_port_preferences (snd (UnregisterDevice s device_id)) =
                 Some (save_ports (heap_ports s) (dev_Ports (heap_devices s d)) prefs))
         \<and> (\<forall>prefs p. m_port_preferences s = Some prefs
               \<and> p \<in> set (dev_Ports (heap_devices s d))
               \<and> port_UniqueId (heap_ports s p) \<noteq> [] \<longrightarrow>
               (\<exists>q\<in>set (dev_Ports (heap_devices s d)).
                  port_UniqueId (heap_ports s q) = port_UniqueId (heap_ports s p)
                  \<and> stored_value (snd (UnregisterDevice s device_id))
                       (port_UniqueId (heap_ports s p))
                     = map_option IntToString (port_Universe (heap_ports s q))))
         \<and> (\<forall>prefs p. m_port_preferences s = Some prefs
               \<and> p \<in> set (dev_Ports (heap_devices s d))
               \<and> port_UniqueId (heap_ports s p) \<noteq> []
               \<and> (\<forall>q\<in>set (dev_Ports (heap_devices s d)).
                     port_UniqueId (heap_ports s q) = port_UniqueId (heap_ports s p) \<longrightarrow> q = p)
               \<longrightarrow>
               stored_value (snd (UnregisterDevice s device_id)) (port_UniqueId (heap_ports s p))
                 = map_option IntToString (port_Universe (heap_ports s p))))"
proof -
  have fails: "(\<not> fst (UnregisterDevice s device_id)) =
      (case map_of (m_devices s) device_id of
         None \<Rightarrow> True
       | Some pair \<Rightarrow> pair_device pair = None)"
    by (auto simp: UnregisterDevice_def Let_def split: option.splits)
  have fails_ptr: "(\<not> fst (UnregisterDevice_ptr s dev)) =
      (case dev of
         None \<Rightarrow> True
       | Some d \<Rightarrow>
           dev_UniqueId (heap_devices s d) = [] \<or>
           (case map_of (m_devices s) (dev_UniqueId (heap_devices s d)) of
              None \<Rightarrow> True
            | Some pair \<Rightarrow> pair_device pair = None))"
    by (auto simp: UnregisterDevice_def UnregisterDevice_ptr_def Let_def split: option.splits)
  have same: "\<not> fst (UnregisterDevice s device_id) \<longrightarrow> snd (UnregisterDevice s device_id) = s"
    by (auto simp: UnregisterDevice_def Let_def split: option.splits)
  have same_ptr: "\<not> fst (UnregisterDevice_ptr s dev) \<longrightarrow> snd (UnregisterDevice_ptr s dev) = s"
    by (auto simp: UnregisterDevice_def UnregisterDevice_ptr_def Let_def split: option.splits)
  have ptr: "\<forall>d. fst (UnregisterDevice_ptr s (Some d)) \<longrightarrow>
         UnregisterDevice_ptr s (Some d) = UnregisterDevice s (dev_UniqueId (heap_devices s d))"
    by (auto simp: UnregisterDevice_ptr_def Let_def)
  have success: "\<forall>pair d. map_of (m_devices s) device_id = Some pair \<and> pair_device pair = Some d \<longrightarrow>
         fst (UnregisterDevice s device_id)
         \<and> m_port_preferences (snd (UnregisterDevice s device_id)) =
             m_port_preferences (SaveDevicePortPatchings s (Some d))
         \<and> m_alias_map (snd (UnregisterDevice s device_id)) =
             (m_alias_map s)(pair_alias pair := None)
         \<and> map_of (m_devices (snd (UnregisterDevice s device_id))) =
             (map_of (m_devices s))(device_id \<mapsto> pair\<lparr>pair_device := None\<rparr>)
         \<and> map fst (m_devices (snd (UnregisterDevice s device_id))) = map fst (m_devices s)
         \<and> m_next_device_alias (snd (UnregisterDevice s device_id)) = m_next_device_alias s
         \<and> m_universe_store (snd (UnregisterDevice s device_id)) = m_universe_store s
         \<and> heap_ports (snd (UnregisterDevice s device_id)) = heap_ports s
         \<and> heap_devices (snd (UnregisterDevice s device_id)) = heap_devices s
         \<and> (m_port_preferences s = None \<longrightarrow>
               m_port_preferences (snd (UnregisterDevice s device_id)) = None)
         \<and> (\<forall>prefs. m_port_preferences s = Some prefs \<longrightarrow>
               m_port_preferences (snd (UnregisterDevice s device_id)) =
                 Some (save_ports (heap_ports s) (dev_Ports (heap_devices s d)) prefs))
         \<and> (\<forall>prefs p. m_port_preferences s = Some prefs
               \<and> p \<in> set (dev_Ports (heap_devices s d))
               \<and> port_UniqueId (heap_ports s p) \<noteq> [] \<longrightarrow>
               (\<exists>q\<in>set (dev_Ports (heap_devices s d)).
                  port_UniqueId (heap_ports s q) = port_UniqueId (heap_ports s p)
                  \<and> stored_value (snd (UnregisterDevice s device_id))
                       (port_UniqueId (heap_ports s p))
                     = map_option IntToString (port_Universe (heap_ports s q))))
         \<and> (\<forall>prefs p. m_port_preferences s = Some prefs
               \<and> p \<in> set (dev_Ports (heap_devices s d))
               \<and> port_UniqueId (heap_ports s p) \<noteq> []
               \<and> (\<forall>q\<in>set (dev_Ports (heap_devices s d)).
                     port_UniqueId (heap_ports s q) = port_UniqueId (heap_ports s p) \<longrightarrow> q = p)
               \<longrightarrow>
               stored_value (snd (UnregisterDevice s device_id)) (port_UniqueId (heap_ports s p))
                 = map_option IntToString (port_Universe (heap_ports s p)))"
  proof (intro allI impI, elim conjE)
    fix pair d
    assume rec: "map_of (m_devices s) device_id = Some pair" "pair_device pair = Some d"
    let ?ps = "dev_Ports (heap_devices s d)"
    let ?s' = "snd (UnregisterDevice s device_id)"
    have un: "UnregisterDevice s device_id =
        (True, (SaveDevicePortPatchings s (Some d))
           \<lparr>m_alias_map := (m_alias_map s)(pair_alias pair := None),
            m_devices := set_device device_id None (m_devices s)\<rparr>)"
      using rec by (simp add: UnregisterDevice_def)
    have r1: "fst (UnregisterDevice s device_id)" by (simp add: un)
    have r2: "m_port_preferences ?s' = m_port_preferences (SaveDevicePortPatchings s (Some d))"
      by (simp add: un)
    have r3: "m_alias_map ?s' = (m_alias_map s)(pair_alias pair := None)" by (simp add: un)
    have r4: "map_of (m_devices ?s') = (map_of (m_devices s))(device_id \<mapsto> pair\<lparr>pair_device := None\<rparr>)"
      using rec by (auto simp: un map_of_set_device fun_eq_iff)
    have r5: "map fst (m_devices ?s') = map fst (m_devices s)" by (simp add: un)
    have r6: "m_next_device_alias ?s' = m_next_device_alias s" by (simp add: un)
    have r7: "m_universe_store ?s' = m_universe_store s" by (simp add: un)
    have r8: "heap_ports ?s' = heap_ports s" by (simp add: un)
    have r9: "heap_devices ?s' = heap_devices s" by (simp add: un)
    have none: "m_port_preferences s = None \<longrightarrow> m_port_preferences ?s' = None"
      by (simp add: un SaveDevicePortPatchings_def)
    have saved: "\<forall>prefs. m_port_preferences s = Some prefs \<longrightarrow>
        m_port_preferences ?s' = Some (save_ports (heap_ports s) ?ps prefs)"
      by (simp add: un Save_Some)
    have some: "\<forall>prefs p. m_port_preferences s = Some prefs \<and> p \<in> set ?ps
          \<and> port_UniqueId (heap_ports s p) \<noteq> [] \<longrightarrow>
        (\<exists>q\<in>set ?ps. port_UniqueId (heap_ports s q) = port_UniqueId (heap_ports s p)
          \<and> stored_value ?s' (port_UniqueId (heap_ports s p))
              = map_option IntToString (port_Universe (heap_ports s q)))"
    proof (intro allI impI, elim conjE)
      fix prefs p
      assume a: "m_port_preferences s = Some prefs" "p \<in> set ?ps"
        "port_UniqueId (heap_ports s p) \<noteq> []"
      from a(1) saved have "stored_value ?s' (port_UniqueId (heap_ports s p))
          = save_ports (heap_ports s) ?ps prefs (port_UniqueId (heap_ports s p))"
        by (simp add: stored_value_def)
      with save_ports_key_some [where hp = "heap_ports s" and ps = ?ps and p = p
          and prefs = prefs, OF a(2,3)]
      show "\<exists>q\<in>set ?ps. port_UniqueId (heap_ports s q) = port_UniqueId (heap_ports s p)
          \<and> stored_value ?s' (port_UniqueId (heap_ports s p))
              = map_option IntToString (port_Universe (heap_ports s q))"
        by simp
    qed
    have own: "\<forall>prefs p. m_port_preferences s = Some prefs \<and> p \<in> set ?ps
          \<and> port_UniqueId (heap_ports s p) \<noteq> []
          \<and> (\<forall>q\<in>set ?ps. port_UniqueId (heap_ports s q) = port_UniqueId (heap_ports s p)
                \<longrightarrow> q = p)
        \<longrightarrow> stored_value ?s' (port_UniqueId (heap_ports s p))
              = map_option IntToString (port_Universe (heap_ports s p))"
    proof (intro allI impI, elim conjE)
      fix prefs p
      assume a: "m_port_preferences s = Some prefs" "p \<in> set ?ps"
        "port_UniqueId (heap_ports s p) \<noteq> []"
        "\<forall>q\<in>set ?ps. port_UniqueId (heap_ports s q) = port_UniqueId (heap_ports s p) \<longrightarrow> q = p"
      from a(1) saved have "stored_value ?s' (port_UniqueId (heap_ports s p))
          = save_ports (heap_ports s) ?ps prefs (port_UniqueId (heap_ports s p))"
        by (simp add: stored_value_def)
      with save_ports_key [where hp = "heap_ports s" and ps = ?ps and p = p
          and prefs = prefs, OF a(2,3,4)]
      show "stored_value ?s' (port_UniqueId (heap_ports s p))
          = map_option IntToString (port_Universe (heap_ports s p))"
        by simp
    qed
    show "fst (UnregisterDevice s device_id)
         \<and> m_port_preferences ?s' = m_port_preferences (SaveDevicePortPatchings s (Some d))
         \<and> m_alias_map ?s' = (m_alias_map s)(pair_alias pair := None)
         \<and> map_of (m_devices ?s') =
             (map_of (m_devices s))(device_id \<mapsto> pair\<lparr>pair_device := None\<rparr>)
         \<and> map fst (m_devices ?s') = map fst (m_devices s)
         \<and> m_next_device_alias ?s' = m_next_device_alias s
         \<and> m_universe_store ?s' = m_universe_store s
         \<and> heap_ports ?s' = heap_ports s
         \<and> heap_devices ?s' = heap_devices s
         \<and> (m_port_preferences s = None \<longrightarrow> m_port_preferences ?s' = None)
         \<and> (\<forall>prefs. m_port_preferences s = Some prefs \<longrightarrow>
               m_port_preferences ?s' = Some (save_ports (heap_ports s) ?ps prefs))
         \<and> (\<forall>prefs p. m_port_preferences s = Some prefs \<and> p \<in> set ?ps
               \<and> port_UniqueId (heap_ports s p) \<noteq> [] \<longrightarrow>
               (\<exists>q\<in>set ?ps. port_UniqueId (heap_ports s q) = port_UniqueId (heap_ports s p)
                  \<and> stored_value ?s' (port_UniqueId (heap_ports s p))
                     = map_option IntToString (port_Universe (heap_ports s q))))
         \<and> (\<forall>prefs p. m_port_preferences s = Some prefs \<and> p \<in> set ?ps
               \<and> port_UniqueId (heap_ports s p) \<noteq> []
               \<and> (\<forall>q\<in>set ?ps.
                     port_UniqueId (heap_ports s q) = port_UniqueId (heap_ports s p) \<longrightarrow> q = p)
               \<longrightarrow>
               stored_value ?s' (port_UniqueId (heap_ports s p))
                 = map_option IntToString (port_Universe (heap_ports s p)))"
      by (intro conjI r1 r2 r3 r4 r5 r6 r7 r8 r9 none saved some own)
  qed
  show ?thesis
    by (intro conjI fails fails_ptr same same_ptr ptr success)
qed

text \<open>Unregistering the registered \<open>usb-1\<close>, whose \<open>portA\<close> is patched to universe 7,
  succeeds, stores \<open>7\<close> under \<open>portA\<close>, where the store had nothing, removes alias 1
  from the alias map and keeps the record with alias 1; unregistering it in the fresh
  manager fails and changes nothing.\<close>

theorem UnregisterDevice_correct_witness:
  "fst (UnregisterDevice usb1_registered ''usb-1'')
   \<and> port_Universe (heap_ports usb1_registered 10) = Some 7
   \<and> stored_value usb1_registered ''portA'' = None
   \<and> stored_value (snd (UnregisterDevice usb1_registered ''usb-1'')) ''portA'' = Some ''7''
   \<and> m_alias_map usb1_registered 1 = Some 1
   \<and> m_alias_map (snd (UnregisterDevice usb1_registered ''usb-1'')) 1 = None
   \<and> map_of (m_devices (snd (UnregisterDevice usb1_registered ''usb-1''))) ''usb-1''
       = Some \<lparr>pair_alias = 1, pair_device = None\<rparr>
   \<and> \<not> fst (UnregisterDevice demo_manager ''usb-1'')
   \<and> snd (UnregisterDevice demo_manager ''usb-1'') = demo_manager"
proof -
  have rec: "map_of (m_devices usb1_registered) ''usb-1''
        = Some \<lparr>pair_alias = 1, pair_device = Some 1\<rparr>
      \<and> pair_device \<lparr>pair_alias = 1, pair_device = Some (1 :: nat)\<rparr> = Some 1"
    by (simp add: usb1_registered_fields)
  note success = UnregisterDevice_correct [of usb1_registered "''usb-1''" None,
      THEN conjunct2, THEN conjunct2, THEN conjunct2, THEN conjunct2, THEN conjunct2,
      THEN spec [of _ "\<lparr>pair_alias = 1, pair_device = Some 1\<rparr>"], THEN spec [of _ 1],
      THEN mp, OF rec]
  have ok: "fst (UnregisterDevice usb1_registered ''usb-1'')"
    using success by (rule conjunct1)
  have bound: "port_Universe (heap_ports usb1_registered 10) = Some 7"
    by (simp add: usb1_registered_fields demo_ports_def)
  have before: "stored_value usb1_registered ''portA'' = None"
    by (simp add: usb1_registered_fields)
  have stored: "stored_value (snd (UnregisterDevice usb1_registered ''usb-1'')) ''portA''
      = Some ''7''"
    using success [THEN conjunct2, THEN conjunct2, THEN conjunct2, THEN conjunct2,
        THEN conjunct2, THEN conjunct2, THEN conjunct2, THEN conjunct2, THEN conjunct2,
        THEN conjunct2, THEN conjunct2, THEN conjunct2,
        THEN spec [of _ Map.empty], THEN spec [of _ 10]]
    by (simp add: usb1_registered_fields demo_devices_def demo_ports_def IntToString_7)
  have a1: "m_alias_map (snd (UnregisterDevice usb1_registered ''usb-1'')) 1 = None"
    using success [THEN conjunct2, THEN conjunct2, THEN conjunct1] by simp
  have m1: "map_of (m_devices (snd (UnregisterDevice usb1_registered ''usb-1''))) ''usb-1''
       = Some \<lparr>pair_alias = 1, pair_device = None\<rparr>"
    using success [THEN conjunct2, THEN conjunct2, THEN conjunct2, THEN conjunct1] by simp
  have fails: "\<not> fst (UnregisterDevice demo_manager ''usb-1'')"
    by (simp add: UnregisterDevice_def demo_manager_def DeviceManager_new_def)
  have same: "snd (UnregisterDevice demo_manager ''usb-1'') = demo_manager"
    using UnregisterDevice_correct [of demo_manager "''usb-1''" None,
        THEN conjunct2, THEN conjunct2, THEN conjunct1] fails by (rule mp)
  show ?thesis
    by (intro conjI ok bound before stored usb1_registered_alias_map a1 m1 fails same)
qed

subsection \<open>The patching survives unregistration\<close>

text \<open>
  C2, as amended. Let the manager have a Preference Store and let \<open>d\<close> be the active device of its
  unique id. Let \<open>p\<close> be a port of \<open>d\<close> with a non-empty unique id that no other port of
  \<open>d\<close> shares, bound to universe \<open>u\<close>. Unregistering \<open>d\<close> succeeds and stores
  \<open>IntToString u\<close> under the port's unique id. However the ports are patched or unpatched
  while the device is away (\<open>repatch f\<close>), registering \<open>d\<close> again succeeds, and
  afterwards universe \<open>u\<close> is in the Universe Store and \<open>p\<close> is bound to it. This holds
  for every \<open>u\<close>, 0 and negative ids included. The amendment is the condition that no
  other port of the device shares the port's unique id.
\<close>

theorem patch_round_trip:
  assumes "m_port_preferences s = Some prefs"
    and "dev_UniqueId (heap_devices s d) \<noteq> []"
    and "map_of (m_devices s) (dev_UniqueId (heap_devices s d)) = Some pair"
    and "pair_device pair = Some d"
    and "p \<in> set (dev_Ports (heap_devices s d))"
    and "port_UniqueId (heap_ports s p) \<noteq> []"
    and "port_Universe (heap_ports s p) = Some u"
    and "\<forall>q\<in>set (dev_Ports (heap_devices s d)).
           port_UniqueId (heap_ports s q) = port_UniqueId (heap_ports s p) \<longrightarrow> q = p"
  shows "fst (UnregisterDevice_ptr s (Some d))
    \<and> (\<exists>prefs'. m_port_preferences (snd (UnregisterDevice_ptr s (Some d))) = Some prefs'
          \<and> prefs' (port_UniqueId (heap_ports s p)) = Some (IntToString u))
    \<and> fst (RegisterDevice pf (repatch f (snd (UnregisterDevice_ptr s (Some d)))) (Some d))
    \<and> port_Universe
         (heap_ports
            (snd (RegisterDevice pf (repatch f (snd (UnregisterDevice_ptr s (Some d)))) (Some d)))
            p) = Some u
    \<and> u \<in> m_universe_store
         (snd (RegisterDevice pf (repatch f (snd (UnregisterDevice_ptr s (Some d)))) (Some d)))"
proof -
  let ?k = "dev_UniqueId (heap_devices s d)"
  let ?ps = "dev_Ports (heap_devices s d)"
  let ?prefs' = "save_ports (heap_ports s) ?ps prefs"
  let ?s1 = "snd (UnregisterDevice_ptr s (Some d))"
  have un: "UnregisterDevice_ptr s (Some d) =
      (True, (SaveDevicePortPatchings s (Some d))
         \<lparr>m_alias_map := (m_alias_map s)(pair_alias pair := None),
          m_devices := set_device ?k None (m_devices s)\<rparr>)"
    using assms(2-4) by (simp add: UnregisterDevice_ptr_def UnregisterDevice_def)
  have prefs1: "m_port_preferences ?s1 = Some ?prefs'"
    using assms(1) by (simp add: un Save_Some)
  have key: "?prefs' (port_UniqueId (heap_ports s p)) = Some (IntToString u)"
    using save_ports_key [OF assms(5,6,8), of prefs] assms(7) by simp
  let ?s2 = "(repatch f ?s1)\<lparr>m_devices := set_device ?k (Some d) (m_devices (repatch f ?s1))\<rparr>"
  let ?s3 = "?s2\<lparr>m_alias_map := (m_alias_map ?s2)(pair_alias pair \<mapsto> d)\<rparr>"
  have reg: "RegisterDevice pf (repatch f ?s1) (Some d) =
      (True, RestoreDevicePortPatchings pf ?s3 (Some d))"
    using assms(2-4)
    by (simp add: RegisterDevice_def install_device_def un map_of_set_device Let_def)
  have "port_Universe (heap_ports (RestoreDevicePortPatchings pf ?s3 (Some d)) p)
      = Some (word_of_int (sint u))
    \<and> word_of_int (sint u) \<in> m_universe_store (RestoreDevicePortPatchings pf ?s3 (Some d))"
  proof (rule RestoreDevicePortPatchings_binds [where prefs = ?prefs' and e = None])
    show "m_port_preferences ?s3 = Some ?prefs'"
      using assms(1) by (simp add: un Save_Some)
    show "p \<in> set (dev_Ports (heap_devices ?s3 d))"
      using assms(5) by (simp add: un)
    show "port_UniqueId (heap_ports ?s3 p) \<noteq> []"
      using assms(6) by (simp add: un)
    show "GetValue ?prefs' (port_UniqueId (heap_ports ?s3 p)) \<noteq> []"
      using key by (simp add: un GetValue_def IntToString_nonempty)
    show "strtol pf (GetValue ?prefs' (port_UniqueId (heap_ports ?s3 p))) = (sint u, None)"
      using key by (simp add: un GetValue_def strtol_IntToString)
    show "word_of_int (sint u) \<noteq> (0 :: cint) \<or> None = (None :: errno_code option)"
      by simp
  qed
  then have bound: "port_Universe (heap_ports (RestoreDevicePortPatchings pf ?s3 (Some d)) p) = Some u
    \<and> u \<in> m_universe_store (RestoreDevicePortPatchings pf ?s3 (Some d))"
    by (simp only: word_of_int_sint_32)
  have ok1: "fst (UnregisterDevice_ptr s (Some d))" by (simp add: un)
  have ex: "\<exists>prefs'. m_port_preferences ?s1 = Some prefs'
          \<and> prefs' (port_UniqueId (heap_ports s p)) = Some (IntToString u)"
    using prefs1 key by blast
  from ok1 ex bound show ?thesis by (simp only: reg fst_conv snd_conv simp_thms)
qed

text \<open>\<open>portA\<close> is patched to universe 7 when \<open>usb-1\<close> is unregistered and unpatched while
  it is away; registering \<open>usb-1\<close> again binds it to universe 7.\<close>

theorem patch_round_trip_witness:
  "port_Universe (heap_ports usb1_registered 10) = Some 7
   \<and> port_Universe
        (heap_ports (repatch (\<lambda>q. None) (snd (UnregisterDevice_ptr usb1_registered (Some 1)))) 10)
       = None
   \<and> fst (UnregisterDevice_ptr usb1_registered (Some 1))
   \<and> fst (RegisterDevice glibc_lp64
          (repatch (\<lambda>q. None) (snd (UnregisterDevice_ptr usb1_registered (Some 1)))) (Some 1))
   \<and> port_Universe
        (heap_ports
           (snd (RegisterDevice glibc_lp64
              (repatch (\<lambda>q. None) (snd (UnregisterDevice_ptr usb1_registered (Some 1))))
              (Some 1))) 10) = Some 7
   \<and> 7 \<in> m_universe_store
        (snd (RegisterDevice glibc_lp64
           (repatch (\<lambda>q. None) (snd (UnregisterDevice_ptr usb1_registered (Some 1))))
           (Some 1)))"
  using patch_round_trip [of usb1_registered Map.empty 1 "\<lparr>pair_alias = 1, pair_device = Some 1\<rparr>"
      10 7 glibc_lp64 "\<lambda>q. None"]
  by (simp add: usb1_registered_fields demo_devices_def demo_ports_def)

text \<open>C2 as stated, for any port with a non-empty unique id, fails when another port of
  the device has the same unique id: with both ports of \<open>usb-1\<close> keyed \<open>portA\<close>, the
  first on universe 7 and the second on universe 8, unregistering and registering
  \<open>usb-1\<close> leaves the first port bound to universe 8.\<close>

theorem shared_key_round_trip_fails:
  "port_UniqueId (heap_ports shared_registered 10) = ''portA''
   \<and> port_Universe (heap_ports shared_registered 10) = Some 7
   \<and> fst (UnregisterDevice_ptr shared_registered (Some 1))
   \<and> fst (RegisterDevice glibc_lp64 (snd (UnregisterDevice_ptr shared_registered (Some 1)))
        (Some 1))
   \<and> port_Universe
        (heap_ports
           (snd (RegisterDevice glibc_lp64
              (snd (UnregisterDevice_ptr shared_registered (Some 1))) (Some 1))) 10) = Some 8"
  by (simp add: shared_registered_fields UnregisterDevice_ptr_def UnregisterDevice_def
      RegisterDevice_def install_device_def SaveDevicePortPatchings_def save_port_def
      SetValue_def RestoreDevicePortPatchings_def restore_port_def GetValue_def
      GetUniverseOrCreate_def AddPort_def demo_devices_def shared_ports_def
      IntToString_nonempty strtol_IntToString)

subsection \<open>One call, seen from the records\<close>

lemma UnregisterAll_loop_fst: "fst (UnregisterAll_loop xs s) = clear_devices xs"
  by (induction xs s rule: UnregisterAll_loop.induct)
    (simp_all add: clear_devices_def case_prod_unfold Let_def)

lemma UnregisterAll_loop_frame:
  "m_devices (snd (UnregisterAll_loop xs s)) = m_devices s
   \<and> m_alias_map (snd (UnregisterAll_loop xs s)) = m_alias_map s
   \<and> m_next_device_alias (snd (UnregisterAll_loop xs s)) = m_next_device_alias s
   \<and> m_universe_store (snd (UnregisterAll_loop xs s)) = m_universe_store s
   \<and> heap_devices (snd (UnregisterAll_loop xs s)) = heap_devices s
   \<and> heap_ports (snd (UnregisterAll_loop xs s)) = heap_ports s"
  by (induction xs s rule: UnregisterAll_loop.induct) (simp_all add: case_prod_unfold Let_def)

lemma UnregisterAllDevices_fields:
  "m_devices (UnregisterAllDevices s) = clear_devices (m_devices s)"
  "m_alias_map (UnregisterAllDevices s) = Map.empty"
  "m_next_device_alias (UnregisterAllDevices s) = m_next_device_alias s"
  "heap_devices (UnregisterAllDevices s) = heap_devices s"
  using UnregisterAll_loop_fst [of "m_devices s" s] UnregisterAll_loop_frame [of "m_devices s" s]
  by (simp_all add: UnregisterAllDevices_def case_prod_unfold Let_def)

text \<open>Every call is one of five changes to the records, the alias map and the counter.\<close>

lemma step_cases:
  obtains
    (same) "m_devices (step pf s op) = m_devices s"
      "m_alias_map (step pf s op) = m_alias_map s"
      "m_next_device_alias (step pf s op) = m_next_device_alias s"
  | (reuse) k pair d where "map_of (m_devices s) k = Some pair" "pair_device pair = None"
      "op = Register (Some d)" "dev_UniqueId (heap_devices s d) = k" "k \<noteq> []"
      "m_devices (step pf s op) = set_device k (Some d) (m_devices s)"
      "m_alias_map (step pf s op) = (m_alias_map s)(pair_alias pair \<mapsto> d)"
      "m_next_device_alias (step pf s op) = m_next_device_alias s"
  | (new) k d where "map_of (m_devices s) k = None"
      "op = Register (Some d)" "dev_UniqueId (heap_devices s d) = k" "k \<noteq> []"
      "m_devices (step pf s op) =
         map_insert k \<lparr>pair_alias = m_next_device_alias s, pair_device = Some d\<rparr> (m_devices s)"
      "m_alias_map (step pf s op) = (m_alias_map s)(m_next_device_alias s \<mapsto> d)"
      "m_next_device_alias (step pf s op) = m_next_device_alias s + 1"
  | (unregister) k pair d where "map_of (m_devices s) k = Some pair" "pair_device pair = Some d"
      "op = Unregister k \<or> (\<exists>d'. op = UnregisterPtr (Some d') \<and> dev_UniqueId (heap_devices s d') = k)"
      "m_devices (step pf s op) = set_device k None (m_devices s)"
      "m_alias_map (step pf s op) = (m_alias_map s)(pair_alias pair := None)"
      "m_next_device_alias (step pf s op) = m_next_device_alias s"
  | (all) "op = UnregisterAll"
      "m_devices (step pf s op) = clear_devices (m_devices s)"
      "m_alias_map (step pf s op) = Map.empty"
      "m_next_device_alias (step pf s op) = m_next_device_alias s"
proof (cases op)
  case (Register dev)
  show ?thesis
  proof (cases dev)
    case None
    with Register show ?thesis by (intro same) (simp_all add: RegisterDevice_def Let_def)
  next
    case (Some d)
    let ?k = "dev_UniqueId (heap_devices s d)"
    show ?thesis
    proof (cases "?k = []")
      case True
      with Register Some show ?thesis by (intro same) (simp_all add: RegisterDevice_def Let_def)
    next
      case False
      show ?thesis
      proof (cases "map_of (m_devices s) ?k")
        case None
        with Register Some False show ?thesis
          by (intro new [of ?k d]) (simp_all add: RegisterDevice_def install_device_def Let_def)
      next
        case (Some pair)
        show ?thesis
        proof (cases "pair_device pair")
          case None
          with Register \<open>dev = Some d\<close> Some False show ?thesis
            by (intro reuse [of ?k pair d]) (simp_all add: RegisterDevice_def install_device_def Let_def)
        next
          case (Some d')
          with Register \<open>dev = Some d\<close> \<open>map_of (m_devices s) ?k = Some pair\<close> show ?thesis
            by (intro same) (simp_all add: RegisterDevice_def Let_def)
        qed
      qed
    qed
  qed
next
  case (Unregister k)
  show ?thesis
  proof (cases "map_of (m_devices s) k")
    case None
    with Unregister show ?thesis by (intro same) (simp_all add: UnregisterDevice_def)
  next
    case (Some pair)
    show ?thesis
    proof (cases "pair_device pair")
      case None
      with Unregister Some show ?thesis by (intro same) (simp_all add: UnregisterDevice_def)
    next
      case (Some d)
      with Unregister \<open>map_of (m_devices s) k = Some pair\<close> show ?thesis
        by (intro unregister [of k pair d]) (simp_all add: UnregisterDevice_def)
    qed
  qed
next
  case (UnregisterPtr dev)
  show ?thesis
  proof (cases dev)
    case None
    with UnregisterPtr show ?thesis by (intro same) (simp_all add: UnregisterDevice_ptr_def Let_def)
  next
    case (Some d')
    let ?k = "dev_UniqueId (heap_devices s d')"
    show ?thesis
    proof (cases "?k = []")
      case True
      with UnregisterPtr Some show ?thesis
        by (intro same) (simp_all add: UnregisterDevice_ptr_def Let_def)
    next
      case False
      show ?thesis
      proof (cases "map_of (m_devices s) ?k")
        case None
        with UnregisterPtr Some False show ?thesis
          by (intro same) (simp_all add: UnregisterDevice_ptr_def UnregisterDevice_def Let_def)
      next
        case (Some pair)
        show ?thesis
        proof (cases "pair_device pair")
          case None
          with UnregisterPtr \<open>dev = Some d'\<close> Some False show ?thesis
            by (intro same) (simp_all add: UnregisterDevice_ptr_def UnregisterDevice_def Let_def)
        next
          case (Some d)
          with UnregisterPtr \<open>dev = Some d'\<close> \<open>map_of (m_devices s) ?k = Some pair\<close> False
          show ?thesis
            by (intro unregister [of ?k pair d])
              (simp_all add: UnregisterDevice_ptr_def UnregisterDevice_def Let_def)
        qed
      qed
    qed
  qed
next
  case UnregisterAll
  then show ?thesis by (intro all) (simp_all add: UnregisterAllDevices_fields)
qed

lemma step_heap_devices [simp]: "heap_devices (step pf s op) = heap_devices s"
  by (cases op)
    (auto simp: RegisterDevice_def install_device_def UnregisterDevice_def
      UnregisterDevice_ptr_def UnregisterAllDevices_fields Let_def split: option.splits)

lemma run_snoc: "run pf s (ops @ [op]) = step pf (run pf s ops) op"
  by (simp add: run_def)

lemma run_Nil [simp]: "run pf s [] = s"
  by (simp add: run_def)

lemma run_append: "run pf s (ops @ ops') = run pf (run pf s ops) ops'"
  by (simp add: run_def)

lemma run_heap_devices [simp]: "heap_devices (run pf s ops) = heap_devices s"
  by (induction ops rule: rev_induct) (simp_all add: run_snoc)

subsection \<open>The records invariant\<close>

lemma mset_map_insert:
  "k \<notin> set (map fst xs) \<Longrightarrow> mset (map_insert k v xs) = add_mset (k, v) (mset xs)"
  by (induction xs) auto

lemma length_map_insert:
  "k \<notin> set (map fst xs) \<Longrightarrow> length (map_insert k v xs) = Suc (length xs)"
  by (induction xs) auto

lemma mset_map_map_insert:
  "k \<notin> set (map fst xs) \<Longrightarrow>
     mset (map f (map_insert k v xs)) = add_mset (f (k, v)) (mset (map f xs))"
  by (induction xs) auto

lemma keys_clear_devices [simp]: "map fst (clear_devices xs) = map fst xs"
  by (simp add: clear_devices_def)

lemma aliases_clear_devices [simp]:
  "map (pair_alias \<circ> snd) (clear_devices xs) = map (pair_alias \<circ> snd) xs"
  by (simp add: clear_devices_def)

lemma length_clear_devices [simp]: "length (clear_devices xs) = length xs"
  by (simp add: clear_devices_def)

lemma map_of_clear_devices:
  "map_of (clear_devices xs) k = map_option (\<lambda>pair. pair\<lparr>pair_device := None\<rparr>) (map_of xs k)"
  by (induction xs) (auto simp: clear_devices_def)

lemma records_inv_new: "records_inv (DeviceManager_new prefs store devs ports)"
  by (simp add: records_inv_def DeviceManager_new_def)

lemma records_inv_step:
  assumes "records_inv s"
  shows "records_inv (step pf s op)"
proof (cases rule: step_cases [where pf = pf and s = s and op = op])
  case same
  with assms show ?thesis
    by (simp add: records_inv_def)
next
  case (reuse k pair d)
  from assms reuse(6,8) show ?thesis by (simp add: records_inv_def)
next
  case (new k d)
  let ?n = "length (m_devices s)"
  let ?v = "\<lparr>pair_alias = m_next_device_alias s, pair_device = Some d\<rparr>"
  let ?xs' = "map_insert k ?v (m_devices s)"
  have fresh: "k \<notin> set (map fst (m_devices s))"
    using new(1) by (simp add: map_of_eq_None_iff)
  have keys: "mset (map fst ?xs') = mset (k # map fst (m_devices s))"
    using mset_map_map_insert [OF fresh, of fst ?v] by simp
  have d: "distinct (map fst ?xs')"
    using mset_eq_imp_distinct_iff [OF keys] assms fresh by (simp add: records_inv_def)
  have "set (map fst ?xs') = set (k # map fst (m_devices s))"
    using keys by (rule mset_eq_setD)
  then have e: "[] \<notin> set (map fst ?xs')"
    using assms new(4) by (simp add: records_inv_def)
  have len: "length ?xs' = Suc ?n"
    using fresh by (rule length_map_insert)
  have c: "m_next_device_alias s + 1 = FIRST_DEVICE_ALIAS + of_nat (Suc ?n)"
    using assms by (simp add: records_inv_def)
  have "mset (map (pair_alias \<circ> snd) ?xs') =
      add_mset (m_next_device_alias s) (mset (map (pair_alias \<circ> snd) (m_devices s)))"
    using mset_map_map_insert [OF fresh, of "pair_alias \<circ> snd" ?v] by simp
  also have "\<dots> = add_mset (FIRST_DEVICE_ALIAS + of_nat ?n)
      (mset (map (\<lambda>i. FIRST_DEVICE_ALIAS + of_nat i) [0..<?n]))"
    using assms by (simp add: records_inv_def)
  also have "\<dots> = mset (map (\<lambda>i. FIRST_DEVICE_ALIAS + of_nat i) [0..<Suc ?n])"
    by simp
  finally have a: "mset (map (pair_alias \<circ> snd) ?xs') =
      mset (map (\<lambda>i. FIRST_DEVICE_ALIAS + of_nat i) [0..<length ?xs'])"
    by (simp only: len)
  show ?thesis
    unfolding records_inv_def new(5,7)
    using d e c a by (simp only: len simp_thms)
next
  case (unregister k pair d)
  from assms unregister(4,6) show ?thesis by (simp add: records_inv_def)
next
  case all
  from assms all(2,4) show ?thesis by (simp add: records_inv_def)
qed

lemma records_inv_run: "records_inv s \<Longrightarrow> records_inv (run pf s ops)"
  by (induction ops rule: rev_induct) (simp_all add: run_snoc records_inv_step)

lemma length_step: "length (m_devices s) \<le> length (m_devices (step pf s op))"
proof (cases rule: step_cases [where pf = pf and s = s and op = op])
  case (new k d)
  then show ?thesis by (simp add: length_map_insert map_of_eq_None_iff)
qed simp_all

lemma length_run: "length (m_devices s) \<le> length (m_devices (run pf s ops))"
proof (induction ops rule: rev_induct)
  case Nil
  show ?case by simp
next
  case (snoc op ops)
  then show ?case
    using length_step [of "run pf s ops" pf op] by (simp add: run_snoc)
qed

subsection \<open>Aliases while the counter has not come round\<close>

lemma word32_of_nat_inj:
  "i < 2 ^ 32 \<Longrightarrow> j < 2 ^ 32 \<Longrightarrow> (of_nat i :: 32 word) = of_nat j \<Longrightarrow> i = j"
proof -
  assume i: "i < 2 ^ 32" and j: "j < 2 ^ 32" and eq: "(of_nat i :: 32 word) = of_nat j"
  have "unat (of_nat i :: 32 word) = i" "unat (of_nat j :: 32 word) = j"
    using i j by (simp_all add: unat_of_nat)
  with eq show "i = j" by metis
qed

lemma first_alias_inj:
  "n < 2 ^ 32 \<Longrightarrow> inj_on (\<lambda>i. FIRST_DEVICE_ALIAS + of_nat i) {0..<n}"
  by (auto simp: inj_on_def intro: word32_of_nat_inj)

lemma first_alias_nonzero:
  assumes "i < n" "n < 2 ^ 32"
  shows "FIRST_DEVICE_ALIAS + of_nat i \<noteq> 0"
proof
  assume "FIRST_DEVICE_ALIAS + of_nat i = 0"
  then have "(of_nat (Suc i) :: 32 word) = of_nat 0" by (simp add: FIRST_DEVICE_ALIAS_def)
  then have "Suc i = 0" using assms by (intro word32_of_nat_inj) simp_all
  then show False by simp
qed

lemma aliases_distinct:
  assumes "records_inv s" "length (m_devices s) < 2 ^ 32"
  shows "distinct (map (pair_alias \<circ> snd) (m_devices s))"
proof -
  have d: "distinct (map (\<lambda>i. FIRST_DEVICE_ALIAS + of_nat i) [0..<length (m_devices s)])"
    using first_alias_inj [OF assms(2)] by (simp add: distinct_map)
  have "mset (map (pair_alias \<circ> snd) (m_devices s)) =
      mset (map (\<lambda>i. FIRST_DEVICE_ALIAS + of_nat i) [0..<length (m_devices s)])"
    using assms(1) by (simp add: records_inv_def)
  from mset_eq_imp_distinct_iff [OF this] d show ?thesis by blast
qed

lemma aliases_set:
  assumes "records_inv s"
  shows "set (map (pair_alias \<circ> snd) (m_devices s)) =
    (\<lambda>i. FIRST_DEVICE_ALIAS + of_nat i) ` {0..<length (m_devices s)}"
proof -
  have "mset (map (pair_alias \<circ> snd) (m_devices s)) =
      mset (map (\<lambda>i. FIRST_DEVICE_ALIAS + of_nat i) [0..<length (m_devices s)])"
    using assms by (simp add: records_inv_def)
  then have "set (map (pair_alias \<circ> snd) (m_devices s)) =
      set (map (\<lambda>i. FIRST_DEVICE_ALIAS + of_nat i) [0..<length (m_devices s)])"
    by (rule mset_eq_setD)
  then show ?thesis by simp
qed

lemma alias_determines_key:
  assumes "distinct (map (pair_alias \<circ> snd) xs)"
    and "map_of xs k1 = Some p1" and "map_of xs k2 = Some p2"
    and "pair_alias p1 = pair_alias p2"
  shows "k1 = k2"
proof -
  have "(k1, p1) \<in> set xs" "(k2, p2) \<in> set xs"
    using assms(2,3) by (auto dest: map_of_SomeD)
  moreover have "inj_on (pair_alias \<circ> snd) (set xs)"
    using assms(1) by (simp add: distinct_map)
  ultimately have "(k1, p1) = (k2, p2)"
    using assms(4) by (intro inj_onD [of "pair_alias \<circ> snd" "set xs"]) simp_all
  then show ?thesis by simp
qed

subsection \<open>Aliases are kept\<close>

lemma alias_of_step:
  assumes "alias_of s k = Some a"
  shows "alias_of (step pf s op) k = Some a"
proof (cases rule: step_cases [where pf = pf and s = s and op = op])
  case same
  with assms show ?thesis by (simp add: alias_of_def)
next
  case (reuse k' pair d)
  from assms show ?thesis
    by (auto simp: alias_of_def reuse(6) map_of_set_device)
next
  case (new k' d)
  from assms new(1) show ?thesis
    by (auto simp: alias_of_def new(5) map_of_map_insert)
next
  case (unregister k' pair d)
  from assms show ?thesis
    by (auto simp: alias_of_def unregister(4) map_of_set_device)
next
  case all
  from assms show ?thesis
    by (auto simp: alias_of_def all(2) map_of_clear_devices)
qed

lemma alias_of_run:
  "alias_of s k = Some a \<Longrightarrow> alias_of (run pf s ops) k = Some a"
  by (induction ops rule: rev_induct) (simp_all add: run_snoc alias_of_step)

lemma keys_run: "set (map fst (m_devices s)) \<subseteq> set (map fst (m_devices (run pf s ops)))"
proof
  fix k assume "k \<in> set (map fst (m_devices s))"
  then obtain a where "alias_of s k = Some a"
    by (cases "map_of (m_devices s) k") (auto simp: alias_of_def map_of_eq_None_iff)
  then have "alias_of (run pf s ops) k = Some a" by (rule alias_of_run)
  then have "map_of (m_devices (run pf s ops)) k \<noteq> None"
    by (auto simp: alias_of_def)
  then show "k \<in> set (map fst (m_devices (run pf s ops)))"
    by (simp add: map_of_eq_None_iff)
qed

subsection \<open>The alias map and the records\<close>

lemma alias_map_sound_step:
  assumes "alias_map_sound s"
  shows "alias_map_sound (step pf s op)"
proof (cases rule: step_cases [where pf = pf and s = s and op = op])
  case same
  with assms show ?thesis by (simp add: alias_map_sound_def)
next
  case (reuse k pair d)
  show ?thesis
    unfolding alias_map_sound_def reuse(6,7)
  proof (intro allI impI)
    fix a d' assume e: "((m_alias_map s)(pair_alias pair \<mapsto> d)) a = Some d'"
    show "\<exists>k'. map_of (set_device k (Some d) (m_devices s)) k'
        = Some \<lparr>pair_alias = a, pair_device = Some d'\<rparr>"
    proof (cases "a = pair_alias pair")
      case True
      with e have "d' = d" by simp
      with True reuse(1) have "map_of (set_device k (Some d) (m_devices s)) k
          = Some \<lparr>pair_alias = a, pair_device = Some d'\<rparr>"
        by (simp add: map_of_set_device)
      then show ?thesis ..
    next
      case False
      with e have "m_alias_map s a = Some d'" by simp
      with assms obtain k' where k': "map_of (m_devices s) k'
          = Some \<lparr>pair_alias = a, pair_device = Some d'\<rparr>"
        by (auto simp: alias_map_sound_def)
      with reuse(1,2) have "k' \<noteq> k" by auto
      with k' have "map_of (set_device k (Some d) (m_devices s)) k'
          = Some \<lparr>pair_alias = a, pair_device = Some d'\<rparr>"
        by (simp add: map_of_set_device)
      then show ?thesis ..
    qed
  qed
next
  case (new k d)
  show ?thesis
    unfolding alias_map_sound_def new(5,6)
  proof (intro allI impI)
    fix a d' assume e: "((m_alias_map s)(m_next_device_alias s \<mapsto> d)) a = Some d'"
    let ?xs' = "map_insert k \<lparr>pair_alias = m_next_device_alias s, pair_device = Some d\<rparr>
        (m_devices s)"
    show "\<exists>k'. map_of ?xs' k' = Some \<lparr>pair_alias = a, pair_device = Some d'\<rparr>"
    proof (cases "a = m_next_device_alias s")
      case True
      with e have "d' = d" by simp
      with True have "map_of ?xs' k = Some \<lparr>pair_alias = a, pair_device = Some d'\<rparr>"
        by (simp add: map_of_map_insert)
      then show ?thesis ..
    next
      case False
      with e have "m_alias_map s a = Some d'" by simp
      with assms obtain k' where k': "map_of (m_devices s) k'
          = Some \<lparr>pair_alias = a, pair_device = Some d'\<rparr>"
        by (auto simp: alias_map_sound_def)
      with new(1) have "k' \<noteq> k" by auto
      with k' have "map_of ?xs' k' = Some \<lparr>pair_alias = a, pair_device = Some d'\<rparr>"
        by (simp add: map_of_map_insert)
      then show ?thesis ..
    qed
  qed
next
  case (unregister k pair d)
  show ?thesis
    unfolding alias_map_sound_def unregister(4,5)
  proof (intro allI impI)
    fix a d' assume e: "((m_alias_map s)(pair_alias pair := None)) a = Some d'"
    then have a: "a \<noteq> pair_alias pair" and "m_alias_map s a = Some d'"
      by (auto split: if_splits)
    with assms obtain k' where k': "map_of (m_devices s) k'
        = Some \<lparr>pair_alias = a, pair_device = Some d'\<rparr>"
      by (auto simp: alias_map_sound_def)
    with unregister(1) a have "k' \<noteq> k" by auto
    with k' have "map_of (set_device k None (m_devices s)) k'
        = Some \<lparr>pair_alias = a, pair_device = Some d'\<rparr>"
      by (simp add: map_of_set_device)
    then show "\<exists>k'. map_of (set_device k None (m_devices s)) k'
        = Some \<lparr>pair_alias = a, pair_device = Some d'\<rparr>" ..
  qed
next
  case all
  then show ?thesis by (simp add: alias_map_sound_def)
qed

lemma alias_map_sound_run:
  "alias_map_sound s \<Longrightarrow> alias_map_sound (run pf s ops)"
  by (induction ops rule: rev_induct) (simp_all add: run_snoc alias_map_sound_step)

lemma alias_map_sound_new: "alias_map_sound (DeviceManager_new prefs store devs ports)"
  by (simp add: alias_map_sound_def DeviceManager_new_def)

lemma alias_map_complete_new: "alias_map_complete (DeviceManager_new prefs store devs ports)"
  by (simp add: alias_map_complete_def DeviceManager_new_def)

lemma alias_map_complete_step:
  assumes inv: "records_inv s" and c: "alias_map_complete s"
    and bound: "length (m_devices (step pf s op)) < 2 ^ 32"
  shows "alias_map_complete (step pf s op)"
proof -
  have "records_inv (step pf s op)" using inv by (rule records_inv_step)
  then have dist': "distinct (map (pair_alias \<circ> snd) (m_devices (step pf s op)))"
    using bound by (rule aliases_distinct)
  have "length (m_devices s) < 2 ^ 32"
    using length_step [of s pf op] bound by simp
  with inv have dist: "distinct (map (pair_alias \<circ> snd) (m_devices s))"
    by (rule aliases_distinct)
  show ?thesis
  proof (cases rule: step_cases [where pf = pf and s = s and op = op])
    case same
    with c show ?thesis by (simp add: alias_map_complete_def)
  next
    case (reuse k pair d)
    show ?thesis
      unfolding alias_map_complete_def reuse(6,7)
    proof (intro allI impI, elim conjE)
      fix k' pair' d'
      assume m: "map_of (set_device k (Some d) (m_devices s)) k' = Some pair'"
        and p: "pair_device pair' = Some d'"
      show "((m_alias_map s)(pair_alias pair \<mapsto> d)) (pair_alias pair') = Some d'"
      proof (cases "k' = k")
        case True
        with m p reuse(1) show ?thesis by (auto simp: map_of_set_device)
      next
        case False
        with m have m': "map_of (m_devices s) k' = Some pair'" by (simp add: map_of_set_device)
        with c p have "m_alias_map s (pair_alias pair') = Some d'"
          by (auto simp: alias_map_complete_def)
        moreover have "pair_alias pair' \<noteq> pair_alias pair"
          using alias_determines_key [OF dist m' reuse(1)] False by auto
        ultimately show ?thesis by simp
      qed
    qed
  next
    case (new k d)
    let ?v = "\<lparr>pair_alias = m_next_device_alias s, pair_device = Some d\<rparr>"
    show ?thesis
      unfolding alias_map_complete_def new(5,6)
    proof (intro allI impI, elim conjE)
      fix k' pair' d'
      assume m: "map_of (map_insert k ?v (m_devices s)) k' = Some pair'"
        and p: "pair_device pair' = Some d'"
      show "((m_alias_map s)(m_next_device_alias s \<mapsto> d)) (pair_alias pair') = Some d'"
      proof (cases "k' = k")
        case True
        with m p show ?thesis by (auto simp: map_of_map_insert)
      next
        case False
        with m have m': "map_of (m_devices s) k' = Some pair'" by (simp add: map_of_map_insert)
        with c p have "m_alias_map s (pair_alias pair') = Some d'"
          by (auto simp: alias_map_complete_def)
        moreover have "map_of (map_insert k ?v (m_devices s)) k = Some ?v"
          by (simp add: map_of_map_insert)
        with dist' m have "pair_alias pair' = pair_alias ?v \<Longrightarrow> k' = k"
          unfolding new(5) by (rule alias_determines_key)
        with False have "pair_alias pair' \<noteq> m_next_device_alias s" by auto
        ultimately show ?thesis by simp
      qed
    qed
  next
    case (unregister k pair d)
    show ?thesis
      unfolding alias_map_complete_def unregister(4,5)
    proof (intro allI impI, elim conjE)
      fix k' pair' d'
      assume m: "map_of (set_device k None (m_devices s)) k' = Some pair'"
        and p: "pair_device pair' = Some d'"
      have "k' \<noteq> k" using m p unregister(1) by (auto simp: map_of_set_device)
      with m have m': "map_of (m_devices s) k' = Some pair'" by (simp add: map_of_set_device)
      with c p have "m_alias_map s (pair_alias pair') = Some d'"
        by (auto simp: alias_map_complete_def)
      moreover have "pair_alias pair' \<noteq> pair_alias pair"
        using alias_determines_key [OF dist m' unregister(1)] \<open>k' \<noteq> k\<close> by auto
      ultimately show "((m_alias_map s)(pair_alias pair := None)) (pair_alias pair') = Some d'"
        by simp
    qed
  next
    case all
    then show ?thesis by (auto simp: alias_map_complete_def map_of_clear_devices)
  qed
qed

lemma alias_map_complete_run:
  assumes "records_inv s" "alias_map_complete s"
    and "length (m_devices (run pf s ops)) < 2 ^ 32"
  shows "alias_map_complete (run pf s ops)"
  using assms(3)
proof (induction ops rule: rev_induct)
  case Nil
  with assms(2) show ?case by simp
next
  case (snoc op ops)
  have "length (m_devices (run pf s ops)) \<le> length (m_devices (run pf s (ops @ [op])))"
    by (simp add: run_snoc length_step)
  with snoc.prems have "length (m_devices (run pf s ops)) < 2 ^ 32" by simp
  then have "alias_map_complete (run pf s ops)" by (rule snoc.IH)
  moreover have "records_inv (run pf s ops)" using assms(1) by (rule records_inv_run)
  ultimately show ?case
    using snoc.prems by (simp add: run_snoc alias_map_complete_step)
qed

subsection \<open>Counting the active devices\<close>

lemma DeviceCount_loop_eq:
  "DeviceCount_loop xs c = c + of_nat (length (filter is_active xs))"
  by (induction xs c rule: DeviceCount_loop.induct) (simp_all add: is_active_def)

lemma DeviceCount_eq: "DeviceCount s = of_nat (length (filter is_active (m_devices s)))"
  by (simp add: DeviceCount_def DeviceCount_loop_eq)

subsection \<open>Registering more devices than there are aliases\<close>

lemma many_uid_inj [simp]:
  "(dev_UniqueId (many_devices i) = dev_UniqueId (many_devices j)) = (i = j)"
  by (simp add: many_devices_def)

lemma many_uid_nonempty [simp]: "dev_UniqueId (many_devices i) \<noteq> []"
  by (simp add: many_devices_def)

lemma many_heap [simp]: "heap_devices many_manager = many_devices"
  by (simp add: many_manager_def DeviceManager_new_def)

lemma Register_fresh:
  assumes "map_of (m_devices s) (dev_UniqueId (heap_devices s d)) = None"
    and "dev_UniqueId (heap_devices s d) \<noteq> []"
  shows "m_devices (snd (RegisterDevice pf s (Some d))) =
      map_insert (dev_UniqueId (heap_devices s d))
        \<lparr>pair_alias = m_next_device_alias s, pair_device = Some d\<rparr> (m_devices s)"
    and "m_alias_map (snd (RegisterDevice pf s (Some d))) = (m_alias_map s)(m_next_device_alias s \<mapsto> d)"
    and "m_next_device_alias (snd (RegisterDevice pf s (Some d))) = m_next_device_alias s + 1"
  using assms by (simp_all add: RegisterDevice_def install_device_def Let_def)

lemma set_map_insert:
  "k \<notin> set (map fst xs) \<Longrightarrow> set (map_insert k v xs) = insert (k, v) (set xs)"
  using mset_map_insert [of k xs v] by (metis set_mset_add_mset_insert set_mset_mset)

lemma register_upto_state:
  "m_next_device_alias (run pf many_manager (register_upto n)) = FIRST_DEVICE_ALIAS + of_nat n
   \<and> (\<forall>i<n. map_of (m_devices (run pf many_manager (register_upto n)))
         (dev_UniqueId (many_devices i))
        = Some \<lparr>pair_alias = FIRST_DEVICE_ALIAS + of_nat i, pair_device = Some i\<rparr>)
   \<and> (\<forall>i\<ge>n. map_of (m_devices (run pf many_manager (register_upto n)))
         (dev_UniqueId (many_devices i)) = None)
   \<and> length (m_devices (run pf many_manager (register_upto n))) = n
   \<and> (\<forall>e\<in>set (m_devices (run pf many_manager (register_upto n))). is_active e)"
proof (induction n)
  case 0
  show ?case by (simp add: many_manager_def DeviceManager_new_def)
next
  case (Suc n)
  let ?s = "run pf many_manager (register_upto n)"
  let ?k = "dev_UniqueId (many_devices n)"
  let ?v = "\<lparr>pair_alias = m_next_device_alias ?s, pair_device = Some n\<rparr>"
  have fresh: "map_of (m_devices ?s) (dev_UniqueId (heap_devices ?s n)) = None"
    using Suc.IH by simp
  have ne: "dev_UniqueId (heap_devices ?s n) \<noteq> []" by simp
  have run: "run pf many_manager (register_upto (Suc n)) = snd (RegisterDevice pf ?s (Some n))"
    by (simp add: run_snoc)
  have devs: "m_devices (snd (RegisterDevice pf ?s (Some n))) = map_insert ?k ?v (m_devices ?s)"
    using Register_fresh(1) [OF fresh ne, of pf] by simp
  have cnt: "m_next_device_alias (snd (RegisterDevice pf ?s (Some n))) = m_next_device_alias ?s + 1"
    using Register_fresh(3) [OF fresh ne, of pf] by simp
  have notin: "?k \<notin> set (map fst (m_devices ?s))"
    using fresh by (simp add: map_of_eq_None_iff)
  have c: "m_next_device_alias ?s = FIRST_DEVICE_ALIAS + of_nat n"
    using Suc.IH by simp
  let ?s' = "snd (RegisterDevice pf ?s (Some n))"
  have 1: "m_next_device_alias ?s' = FIRST_DEVICE_ALIAS + of_nat (Suc n)"
    by (simp add: cnt c)
  have 2: "\<forall>i<Suc n. map_of (m_devices ?s') (dev_UniqueId (many_devices i))
        = Some \<lparr>pair_alias = FIRST_DEVICE_ALIAS + of_nat i, pair_device = Some i\<rparr>"
    using Suc.IH by (auto simp: devs map_of_map_insert c less_Suc_eq)
  have 3: "\<forall>i\<ge>Suc n. map_of (m_devices ?s') (dev_UniqueId (many_devices i)) = None"
    using Suc.IH by (auto simp: devs map_of_map_insert)
  have 4: "length (m_devices ?s') = Suc n"
    using Suc.IH by (simp add: devs length_map_insert [OF notin])
  have 5: "\<forall>e\<in>set (m_devices ?s'). is_active e"
    using Suc.IH by (simp add: devs set_map_insert [OF notin] is_active_def)
  from 1 2 3 4 5 show ?case unfolding run by blast
qed

lemma register_upto_last:
  "m_alias_map (run pf many_manager (register_upto (Suc n))) (FIRST_DEVICE_ALIAS + of_nat n)
     = Some n"
proof -
  let ?s = "run pf many_manager (register_upto n)"
  have fresh: "map_of (m_devices ?s) (dev_UniqueId (heap_devices ?s n)) = None"
    using register_upto_state [of pf n] by simp
  have ne: "dev_UniqueId (heap_devices ?s n) \<noteq> []" by simp
  have "m_next_device_alias ?s = FIRST_DEVICE_ALIAS + of_nat n"
    using register_upto_state [of pf n] by simp
  moreover have "run pf many_manager (register_upto (Suc n)) = snd (RegisterDevice pf ?s (Some n))"
    by (simp add: run_snoc)
  ultimately show ?thesis
    using Register_fresh(2) [OF fresh ne, of pf] by simp
qed

lemma wrap_1: "FIRST_DEVICE_ALIAS + of_nat 4294967296 = (1 :: 32 word)"
  by (simp add: FIRST_DEVICE_ALIAS_def)

lemma wrap_0: "FIRST_DEVICE_ALIAS + of_nat 4294967295 = (0 :: 32 word)"
  by (simp add: FIRST_DEVICE_ALIAS_def)

lemma register_upto_record:
  "i < n \<Longrightarrow>
     map_of (m_devices (run pf many_manager (register_upto n))) (dev_UniqueId (many_devices i))
       = Some \<lparr>pair_alias = FIRST_DEVICE_ALIAS + of_nat i, pair_device = Some i\<rparr>"
  using register_upto_state [of pf n] by blast

subsection \<open>The scenario, evaluated\<close>

lemma scenario_start_state:
  "m_devices (run pf demo_manager scenario_start) =
     [(''usb-1'', \<lparr>pair_alias = 1, pair_device = Some 1\<rparr>),
      (''usb-2'', \<lparr>pair_alias = 2, pair_device = Some 2\<rparr>)]"
  "m_alias_map (run pf demo_manager scenario_start) = [1 \<mapsto> 1, 2 \<mapsto> 2]"
  "m_next_device_alias (run pf demo_manager scenario_start) = 3"
  by (simp_all add: run_def scenario_start_def demo_manager_def DeviceManager_new_def
      demo_devices_def RegisterDevice_def install_device_def FIRST_DEVICE_ALIAS_def)

lemma scenario_unregistered_state:
  "m_devices (run pf demo_manager (scenario_start @ [Unregister ''usb-1''])) =
     [(''usb-1'', \<lparr>pair_alias = 1, pair_device = None\<rparr>),
      (''usb-2'', \<lparr>pair_alias = 2, pair_device = Some 2\<rparr>)]"
  "m_alias_map (run pf demo_manager (scenario_start @ [Unregister ''usb-1''])) = [2 \<mapsto> 2]"
  by (simp_all add: run_snoc scenario_start_state UnregisterDevice_def fun_eq_iff)

lemma scenario_end_state:
  "m_devices (run pf (run pf demo_manager scenario_start) scenario_rest) =
     [(''usb-1'', \<lparr>pair_alias = 1, pair_device = Some 1\<rparr>),
      (''usb-2'', \<lparr>pair_alias = 2, pair_device = Some 2\<rparr>),
      (''usb-3'', \<lparr>pair_alias = 3, pair_device = Some 3\<rparr>)]"
  by (simp add: run_def scenario_start_def scenario_rest_def demo_manager_def
      DeviceManager_new_def demo_devices_def RegisterDevice_def install_device_def
      UnregisterDevice_def FIRST_DEVICE_ALIAS_def Let_def)

lemma alias_of_iff:
  "(alias_of s k = Some a) = (\<exists>pair. map_of (m_devices s) k = Some pair \<and> pair_alias pair = a)"
  by (auto simp: alias_of_def)

lemma alias_values:
  assumes "records_inv s"
  shows "{a. \<exists>k. alias_of s k = Some a} = set (map (pair_alias \<circ> snd) (m_devices s))"
proof (intro set_eqI iffI)
  fix a assume "a \<in> {a. \<exists>k. alias_of s k = Some a}"
  then obtain k pair where "map_of (m_devices s) k = Some pair" "pair_alias pair = a"
    by (auto simp: alias_of_iff)
  then have "(k, pair) \<in> set (m_devices s)" by (auto dest: map_of_SomeD)
  with \<open>pair_alias pair = a\<close> show "a \<in> set (map (pair_alias \<circ> snd) (m_devices s))"
    by force
next
  fix a assume "a \<in> set (map (pair_alias \<circ> snd) (m_devices s))"
  then obtain k pair where e: "(k, pair) \<in> set (m_devices s)" and a: "pair_alias pair = a"
    by auto
  have "distinct (map fst (m_devices s))" using assms by (simp add: records_inv_def)
  from this e have "map_of (m_devices s) k = Some pair" by (rule map_of_is_SomeI)
  with a show "a \<in> {a. \<exists>k. alias_of s k = Some a}" by (auto simp: alias_of_iff)
qed

lemma unat_first_alias:
  "i < n \<Longrightarrow> n < 2 ^ 32 \<Longrightarrow> unat (FIRST_DEVICE_ALIAS + of_nat i) = Suc i"
proof -
  assume "i < n" "n < 2 ^ 32"
  then have "Suc i < 2 ^ 32" by simp
  then have "unat (of_nat (Suc i) :: 32 word) = Suc i" by (simp only: unat_of_nat) simp
  moreover have "FIRST_DEVICE_ALIAS + of_nat i = (of_nat (Suc i) :: 32 word)"
    by (simp add: FIRST_DEVICE_ALIAS_def)
  ultimately show ?thesis by (simp only:)
qed

subsection \<open>Alias allocation\<close>

lemma alias_allocation_bounded:
  assumes "s = run pf (DeviceManager_new prefs store devs ports) ops"
    and "s' = run pf s ops'"
    and "length (m_devices s') < 2 ^ 32"
  shows "(\<forall>k1 k2 a. alias_of s' k1 = Some a \<and> alias_of s' k2 = Some a \<longrightarrow> k1 = k2)
    \<and> m_next_device_alias s = FIRST_DEVICE_ALIAS + of_nat (length (m_devices s))
    \<and> {a. \<exists>k. alias_of s k = Some a} =
        (\<lambda>i. FIRST_DEVICE_ALIAS + of_nat i) ` {0..<length (m_devices s)}
    \<and> (\<forall>k a. alias_of s k = Some a \<longrightarrow> alias_of s' k = Some a)
    \<and> (\<forall>k k' a. alias_of s k = Some a \<and> alias_of s' k' = Some a \<longrightarrow> k' = k)
    \<and> (\<forall>k k' a a'. alias_of s k = Some a \<and> alias_of s k' = None \<and> alias_of s' k' = Some a'
          \<longrightarrow> a < a')"
proof -
  have inv: "records_inv s"
    unfolding assms(1) by (intro records_inv_run records_inv_new)
  then have inv': "records_inv s'"
    unfolding assms(2) by (rule records_inv_run)
  have len: "length (m_devices s) \<le> length (m_devices s')"
    unfolding assms(2) by (rule length_run)
  have dist': "distinct (map (pair_alias \<circ> snd) (m_devices s'))"
    using inv' assms(3) by (rule aliases_distinct)
  have unique: "k1 = k2" if "alias_of s' k1 = Some a" "alias_of s' k2 = Some a" for k1 k2 a
  proof -
    from that obtain p1 p2 where "map_of (m_devices s') k1 = Some p1"
      "map_of (m_devices s') k2 = Some p2" "pair_alias p1 = pair_alias p2"
      by (auto simp: alias_of_iff)
    with dist' show ?thesis by (rule alias_determines_key)
  qed
  have counter: "m_next_device_alias s = FIRST_DEVICE_ALIAS + of_nat (length (m_devices s))"
    using inv by (simp add: records_inv_def)
  have vals: "{a. \<exists>k. alias_of s k = Some a} =
        (\<lambda>i. FIRST_DEVICE_ALIAS + of_nat i) ` {0..<length (m_devices s)}"
    using alias_values [OF inv] aliases_set [OF inv] by simp
  have vals': "{a. \<exists>k. alias_of s' k = Some a} =
        (\<lambda>i. FIRST_DEVICE_ALIAS + of_nat i) ` {0..<length (m_devices s')}"
    using alias_values [OF inv'] aliases_set [OF inv'] by simp
  have kept: "alias_of s' k = Some a" if "alias_of s k = Some a" for k a
    using that unfolding assms(2) by (rule alias_of_run)
  have never: "k' = k" if "alias_of s k = Some a" "alias_of s' k' = Some a" for k k' a
    using unique [OF that(2) kept [OF that(1)]] .
  have increasing: "a < a'"
    if "alias_of s k = Some a" "alias_of s k' = None" "alias_of s' k' = Some a'" for k k' a a'
  proof -
    have "a \<in> {a. \<exists>k. alias_of s k = Some a}" using that(1) by blast
    then have "a \<in> (\<lambda>i. FIRST_DEVICE_ALIAS + of_nat i) ` {0..<length (m_devices s)}"
      unfolding vals .
    then obtain i where i: "i < length (m_devices s)" "a = FIRST_DEVICE_ALIAS + of_nat i"
      by auto
    have "a' \<in> {a. \<exists>k. alias_of s' k = Some a}" using that(3) by blast
    then have "a' \<in> (\<lambda>i. FIRST_DEVICE_ALIAS + of_nat i) ` {0..<length (m_devices s')}"
      unfolding vals' .
    then obtain j where j: "j < length (m_devices s')" "a' = FIRST_DEVICE_ALIAS + of_nat j"
      by auto
    have "\<not> j < length (m_devices s)"
    proof
      assume "j < length (m_devices s)"
      with j(2) have "a' \<in> (\<lambda>i. FIRST_DEVICE_ALIAS + of_nat i) ` {0..<length (m_devices s)}"
        by simp
      then have "a' \<in> {a. \<exists>k. alias_of s k = Some a}" unfolding vals .
      then obtain k'' where "alias_of s k'' = Some a'" by blast
      from never [OF this that(3)] this that(2) show False by simp
    qed
    with i(1) have "i < j" by simp
    moreover have "unat a = Suc i"
      unfolding i(2) using i(1) len assms(3) by (intro unat_first_alias [of i "length (m_devices s')"]) simp_all
    moreover have "unat a' = Suc j"
      unfolding j(2) using j(1) assms(3) by (rule unat_first_alias)
    ultimately show ?thesis by (simp add: word_less_nat_alt)
  qed
  from unique counter vals kept never increasing show ?thesis by blast
qed

text \<open>
  C1, as amended. Let \<open>s\<close> be reached from a new manager by any calls and \<open>s'\<close> from \<open>s\<close>
  by any further calls. Every alias of \<open>s\<close> is still the alias of the same unique id in
  \<open>s'\<close>, so a registration after any number of unregistrations finds the alias of the
  first registration; the counter is the first alias plus the number of records, and the
  aliases in use are the first alias and its successors, one per record, in 32-bit
  arithmetic. If \<open>s'\<close> holds fewer than \<open>2^32\<close> records (fewer than \<open>2^32\<close> distinct unique
  ids have been registered), then moreover no two unique ids have the same alias in
  \<open>s'\<close>, an alias of \<open>s\<close> belongs to no other unique id in \<open>s'\<close>, and a unique id first
  seen after \<open>s\<close> has an alias greater than every alias of \<open>s\<close>.
\<close>

theorem alias_allocation:
  assumes "s = run pf (DeviceManager_new prefs store devs ports) ops"
    and "s' = run pf s ops'"
  shows "(\<forall>k a. alias_of s k = Some a \<longrightarrow> alias_of s' k = Some a)
    \<and> m_next_device_alias s = FIRST_DEVICE_ALIAS + of_nat (length (m_devices s))
    \<and> {a. \<exists>k. alias_of s k = Some a} =
        (\<lambda>i. FIRST_DEVICE_ALIAS + of_nat i) ` {0..<length (m_devices s)}
    \<and> (length (m_devices s') < 2 ^ 32 \<longrightarrow>
         (\<forall>k1 k2 a. alias_of s' k1 = Some a \<and> alias_of s' k2 = Some a \<longrightarrow> k1 = k2)
         \<and> (\<forall>k k' a. alias_of s k = Some a \<and> alias_of s' k' = Some a \<longrightarrow> k' = k)
         \<and> (\<forall>k k' a a'.
               alias_of s k = Some a \<and> alias_of s k' = None \<and> alias_of s' k' = Some a'
               \<longrightarrow> a < a'))"
proof -
  have inv: "records_inv s"
    unfolding assms(1) by (intro records_inv_run records_inv_new)
  have kept: "\<forall>k a. alias_of s k = Some a \<longrightarrow> alias_of s' k = Some a"
    unfolding assms(2) by (simp add: alias_of_run)
  have counter: "m_next_device_alias s = FIRST_DEVICE_ALIAS + of_nat (length (m_devices s))"
    using inv by (simp add: records_inv_def)
  have vals: "{a. \<exists>k. alias_of s k = Some a} =
        (\<lambda>i. FIRST_DEVICE_ALIAS + of_nat i) ` {0..<length (m_devices s)}"
    using alias_values [OF inv] aliases_set [OF inv] by simp
  have bounded: "length (m_devices s') < 2 ^ 32 \<longrightarrow>
         (\<forall>k1 k2 a. alias_of s' k1 = Some a \<and> alias_of s' k2 = Some a \<longrightarrow> k1 = k2)
         \<and> (\<forall>k k' a. alias_of s k = Some a \<and> alias_of s' k' = Some a \<longrightarrow> k' = k)
         \<and> (\<forall>k k' a a'.
               alias_of s k = Some a \<and> alias_of s k' = None \<and> alias_of s' k' = Some a'
               \<longrightarrow> a < a')"
  proof
    assume "length (m_devices s') < 2 ^ 32"
    from alias_allocation_bounded [OF assms this]
    show "(\<forall>k1 k2 a. alias_of s' k1 = Some a \<and> alias_of s' k2 = Some a \<longrightarrow> k1 = k2)
         \<and> (\<forall>k k' a. alias_of s k = Some a \<and> alias_of s' k' = Some a \<longrightarrow> k' = k)
         \<and> (\<forall>k k' a a'.
               alias_of s k = Some a \<and> alias_of s k' = None \<and> alias_of s' k' = Some a'
               \<longrightarrow> a < a')"
      by blast
  qed
  from kept counter vals bounded show ?thesis by (intro conjI)
qed

text \<open>The spec's scenario: \<open>usb-1\<close> and \<open>usb-2\<close> get the aliases 1 and 2; after \<open>usb-1\<close>
  has unregistered and registered again it still has alias 1, and \<open>usb-3\<close> gets 3.\<close>

theorem alias_allocation_witness:
  "length (m_devices (run glibc_lp64 (run glibc_lp64 demo_manager scenario_start) scenario_rest))
     < 2 ^ 32
   \<and> alias_of (run glibc_lp64 demo_manager scenario_start) ''usb-1'' = Some 1
   \<and> alias_of (run glibc_lp64 demo_manager scenario_start) ''usb-2'' = Some 2
   \<and> alias_of (run glibc_lp64 demo_manager scenario_start) ''usb-3'' = None
   \<and> m_next_device_alias (run glibc_lp64 demo_manager scenario_start) = 3
   \<and> alias_of (run glibc_lp64 (run glibc_lp64 demo_manager scenario_start) scenario_rest)
        ''usb-1'' = Some 1
   \<and> alias_of (run glibc_lp64 (run glibc_lp64 demo_manager scenario_start) scenario_rest)
        ''usb-3'' = Some 3"
  using alias_allocation
    [where s = "run glibc_lp64 demo_manager scenario_start" and pf = glibc_lp64
      and prefs = "Some Map.empty" and store = "{}" and devs = demo_devices
      and ports = demo_ports and ops = scenario_start and ops' = scenario_rest
      and s' = "run glibc_lp64 (run glibc_lp64 demo_manager scenario_start) scenario_rest",
      folded demo_manager_def]
  by (simp add: alias_of_def scenario_start_state scenario_end_state)

text \<open>C1 as stated, for every sequence of operations, fails once the counter has come
  round: after \<open>2^32 + 1\<close> devices have registered, the first and the last of them, with
  different unique ids, both have alias 1.\<close>

theorem alias_shared_after_wrap:
  "alias_of (run glibc_lp64 many_manager (register_upto 4294967297))
      (dev_UniqueId (many_devices 0)) = Some 1
   \<and> alias_of (run glibc_lp64 many_manager (register_upto 4294967297))
      (dev_UniqueId (many_devices 4294967296)) = Some 1
   \<and> dev_UniqueId (many_devices 0) \<noteq> dev_UniqueId (many_devices 4294967296)"
  using register_upto_record [of 0 4294967297 glibc_lp64]
    register_upto_record [of 4294967296 4294967297 glibc_lp64] wrap_1
  by (simp add: alias_of_def FIRST_DEVICE_ALIAS_def)

subsection \<open>The alias map is derived from the records\<close>

lemma alias_map_is_derived_bounded:
  assumes "s = run pf (DeviceManager_new prefs store devs ports) ops"
    and "s' = run pf s ops'"
    and "length (m_devices s') < 2 ^ 32"
  shows "(\<forall>a d. (m_alias_map s' a = Some d) =
            (\<exists>k. map_of (m_devices s') k = Some \<lparr>pair_alias = a, pair_device = Some d\<rparr>))
    \<and> set (map fst (m_devices s)) \<subseteq> set (map fst (m_devices s'))"
proof -
  have s': "s' = run pf (DeviceManager_new prefs store devs ports) (ops @ ops')"
    by (simp add: assms(1,2) run_append)
  have inv: "records_inv (DeviceManager_new prefs store devs ports)"
    by (rule records_inv_new)
  have sound: "alias_map_sound s'"
    unfolding s' by (intro alias_map_sound_run alias_map_sound_new)
  have complete: "alias_map_complete s'"
    using assms(3) unfolding s'
    by (intro alias_map_complete_run inv alias_map_complete_new)
  have "(m_alias_map s' a = Some d) =
      (\<exists>k. map_of (m_devices s') k = Some \<lparr>pair_alias = a, pair_device = Some d\<rparr>)" for a d
  proof
    assume "m_alias_map s' a = Some d"
    with sound show "\<exists>k. map_of (m_devices s') k = Some \<lparr>pair_alias = a, pair_device = Some d\<rparr>"
      by (simp add: alias_map_sound_def)
  next
    assume "\<exists>k. map_of (m_devices s') k = Some \<lparr>pair_alias = a, pair_device = Some d\<rparr>"
    then obtain k where "map_of (m_devices s') k = Some \<lparr>pair_alias = a, pair_device = Some d\<rparr>" ..
    with complete have "m_alias_map s' (pair_alias \<lparr>pair_alias = a, pair_device = Some d\<rparr>) = Some d"
      unfolding alias_map_complete_def by (elim allE [of _ k] allE [of _ "\<lparr>pair_alias = a, pair_device = Some d\<rparr>"] allE [of _ d]) simp
    then show "m_alias_map s' a = Some d" by simp
  qed
  moreover have "set (map fst (m_devices s)) \<subseteq> set (map fst (m_devices s'))"
    unfolding assms(2) by (rule keys_run)
  ultimately show ?thesis by blast
qed

text \<open>
  C9, as amended. Let \<open>s'\<close> be reached from a new manager by any calls of
  \<open>RegisterDevice\<close>, \<open>UnregisterDevice\<close> and \<open>UnregisterAllDevices\<close>, through the state
  \<open>s\<close>. Every entry \<open>a \<mapsto> d\<close> of the alias map of \<open>s'\<close> is the alias and the device of a
  record of \<open>s'\<close>, so the map has entries for active devices only; and every key of the
  records of \<open>s\<close> is a key of the records of \<open>s'\<close>. If \<open>s'\<close> holds fewer than \<open>2^32\<close>
  records, the alias map has the entry \<open>a \<mapsto> d\<close> if and only if some record of \<open>s'\<close> has
  alias \<open>a\<close> and device \<open>d\<close>.
\<close>

theorem alias_map_is_derived:
  assumes "s = run pf (DeviceManager_new prefs store devs ports) ops"
    and "s' = run pf s ops'"
  shows "(\<forall>a d. m_alias_map s' a = Some d \<longrightarrow>
            (\<exists>k. map_of (m_devices s') k = Some \<lparr>pair_alias = a, pair_device = Some d\<rparr>))
    \<and> set (map fst (m_devices s)) \<subseteq> set (map fst (m_devices s'))
    \<and> (length (m_devices s') < 2 ^ 32 \<longrightarrow>
         (\<forall>a d. (m_alias_map s' a = Some d) =
            (\<exists>k. map_of (m_devices s') k = Some \<lparr>pair_alias = a, pair_device = Some d\<rparr>)))"
proof -
  have "alias_map_sound s'"
    unfolding assms by (intro alias_map_sound_run alias_map_sound_new)
  then have sound: "\<forall>a d. m_alias_map s' a = Some d \<longrightarrow>
      (\<exists>k. map_of (m_devices s') k = Some \<lparr>pair_alias = a, pair_device = Some d\<rparr>)"
    by (simp add: alias_map_sound_def)
  have keys: "set (map fst (m_devices s)) \<subseteq> set (map fst (m_devices s'))"
    unfolding assms(2) by (rule keys_run)
  have bounded: "length (m_devices s') < 2 ^ 32 \<longrightarrow>
      (\<forall>a d. (m_alias_map s' a = Some d) =
         (\<exists>k. map_of (m_devices s') k = Some \<lparr>pair_alias = a, pair_device = Some d\<rparr>))"
  proof
    assume "length (m_devices s') < 2 ^ 32"
    from alias_map_is_derived_bounded [OF assms this]
    show "\<forall>a d. (m_alias_map s' a = Some d) =
         (\<exists>k. map_of (m_devices s') k = Some \<lparr>pair_alias = a, pair_device = Some d\<rparr>)"
      by (rule conjunct1)
  qed
  from sound keys bounded show ?thesis by (intro conjI)
qed

text \<open>After \<open>usb-1\<close> and \<open>usb-2\<close> have registered and \<open>usb-1\<close> has unregistered, the alias
  map has \<open>usb-2\<close> under 2 and nothing under 1, and the record of \<open>usb-1\<close> is still
  there.\<close>

theorem alias_map_is_derived_witness:
  "length (m_devices (run glibc_lp64 (run glibc_lp64 demo_manager scenario_start)
      [Unregister ''usb-1''])) < 2 ^ 32
   \<and> m_alias_map (run glibc_lp64 (run glibc_lp64 demo_manager scenario_start)
        [Unregister ''usb-1'']) 2 = Some 2
   \<and> map_of (m_devices (run glibc_lp64 (run glibc_lp64 demo_manager scenario_start)
        [Unregister ''usb-1''])) ''usb-2'' = Some \<lparr>pair_alias = 2, pair_device = Some 2\<rparr>
   \<and> m_alias_map (run glibc_lp64 (run glibc_lp64 demo_manager scenario_start)
        [Unregister ''usb-1'']) 1 = None
   \<and> map_of (m_devices (run glibc_lp64 (run glibc_lp64 demo_manager scenario_start)
        [Unregister ''usb-1''])) ''usb-1'' = Some \<lparr>pair_alias = 1, pair_device = None\<rparr>
   \<and> set (map fst (m_devices (run glibc_lp64 demo_manager scenario_start)))
       \<subseteq> set (map fst (m_devices (run glibc_lp64 (run glibc_lp64 demo_manager scenario_start)
            [Unregister ''usb-1''])))"
  using alias_map_is_derived
    [where s = "run glibc_lp64 demo_manager scenario_start" and pf = glibc_lp64
      and prefs = "Some Map.empty" and store = "{}" and devs = demo_devices
      and ports = demo_ports and ops = scenario_start and ops' = "[Unregister ''usb-1'']"
      and s' = "run glibc_lp64 (run glibc_lp64 demo_manager scenario_start)
        [Unregister ''usb-1'']",
      folded demo_manager_def]
    scenario_unregistered_state [of glibc_lp64]
  by (simp add: run_append scenario_start_state)

text \<open>C9 as stated fails once the counter has come round: after \<open>2^32 + 1\<close> devices have
  registered, the record of the first has alias 1 and its device, but the alias map has
  the last device under 1.\<close>

theorem alias_map_misses_after_wrap:
  "map_of (m_devices (run glibc_lp64 many_manager (register_upto 4294967297)))
      (dev_UniqueId (many_devices 0)) = Some \<lparr>pair_alias = 1, pair_device = Some 0\<rparr>
   \<and> m_alias_map (run glibc_lp64 many_manager (register_upto 4294967297)) 1 = Some 4294967296"
proof -
  have "(4294967297 :: nat) = Suc 4294967296" by simp
  then have "m_alias_map (run glibc_lp64 many_manager (register_upto 4294967297))
      (FIRST_DEVICE_ALIAS + of_nat 4294967296) = Some 4294967296"
    using register_upto_last [of glibc_lp64 4294967296] by (simp only:)
  then have "m_alias_map (run glibc_lp64 many_manager (register_upto 4294967297)) 1
      = Some 4294967296"
    by (simp only: wrap_1)
  moreover have "map_of (m_devices (run glibc_lp64 many_manager (register_upto 4294967297)))
      (dev_UniqueId (many_devices 0)) = Some \<lparr>pair_alias = 1, pair_device = Some 0\<rparr>"
    using register_upto_record [of 0 4294967297 glibc_lp64]
    by (simp add: FIRST_DEVICE_ALIAS_def)
  ultimately show ?thesis by (rule conjI [rotated])
qed

subsection \<open>Looking a device up by its unique id\<close>

lemma GetDevice_correct_bounded:
  assumes "s = run pf (DeviceManager_new prefs store devs ports) ops"
    and "length (m_devices s) < 2 ^ 32"
  shows "(\<forall>pair. map_of (m_devices s) unique_id = Some pair \<and> pair_device pair \<noteq> None
            \<longrightarrow> GetDevice s unique_id = pair)
    \<and> (map_of (m_devices s) unique_id = None
          \<longrightarrow> GetDevice s unique_id = \<lparr>pair_alias = MISSING_DEVICE_ALIAS, pair_device = None\<rparr>)
    \<and> (\<forall>pair. map_of (m_devices s) unique_id = Some pair \<and> pair_device pair = None
            \<longrightarrow> GetDevice s unique_id = \<lparr>pair_alias = MISSING_DEVICE_ALIAS, pair_device = None\<rparr>)
    \<and> GetDevice (snd (UnregisterDevice s unique_id)) unique_id
         = \<lparr>pair_alias = MISSING_DEVICE_ALIAS, pair_device = None\<rparr>
    \<and> MISSING_DEVICE_ALIAS = 0
    \<and> (\<forall>k pair. map_of (m_devices s) k = Some pair \<longrightarrow> pair_alias pair \<noteq> 0)"
proof -
  have inv: "records_inv s"
    unfolding assms(1) by (intro records_inv_run records_inv_new)
  have "pair_alias pair \<noteq> 0" if "map_of (m_devices s) k = Some pair" for k pair
  proof -
    from that have "(k, pair) \<in> set (m_devices s)" by (rule map_of_SomeD)
    then have "pair_alias pair \<in> set (map (pair_alias \<circ> snd) (m_devices s))" by force
    then have "pair_alias pair \<in> (\<lambda>i. FIRST_DEVICE_ALIAS + of_nat i) ` {0..<length (m_devices s)}"
      unfolding aliases_set [OF inv] .
    then obtain i where "i < length (m_devices s)" "pair_alias pair = FIRST_DEVICE_ALIAS + of_nat i"
      by auto
    with assms(2) show ?thesis by (simp add: first_alias_nonzero)
  qed
  moreover have "GetDevice (snd (UnregisterDevice s unique_id)) unique_id
         = \<lparr>pair_alias = MISSING_DEVICE_ALIAS, pair_device = None\<rparr>"
    by (auto simp: GetDevice_def UnregisterDevice_def map_of_set_device split: option.splits)
  moreover have "\<forall>pair. map_of (m_devices s) unique_id = Some pair \<and> pair_device pair \<noteq> None
            \<longrightarrow> GetDevice s unique_id = pair"
    by (auto simp: GetDevice_def)
  moreover have "map_of (m_devices s) unique_id = None
          \<longrightarrow> GetDevice s unique_id = \<lparr>pair_alias = MISSING_DEVICE_ALIAS, pair_device = None\<rparr>"
    by (simp add: GetDevice_def)
  moreover have "\<forall>pair. map_of (m_devices s) unique_id = Some pair \<and> pair_device pair = None
            \<longrightarrow> GetDevice s unique_id = \<lparr>pair_alias = MISSING_DEVICE_ALIAS, pair_device = None\<rparr>"
    by (simp add: GetDevice_def)
  ultimately show ?thesis by (simp add: MISSING_DEVICE_ALIAS_def)
qed

text \<open>
  C6, as amended. In a state reached from a new manager, \<open>GetDevice\<close> returns the
  record of the unique id when the record has a device, and the pair of
  \<open>MISSING_DEVICE_ALIAS\<close>, which is 0, and the null device when there is no record or
  the record has no device; so it returns that pair after \<open>UnregisterDevice\<close> of the
  unique id. If the manager holds fewer than \<open>2^32\<close> records, no record has alias 0.
\<close>

theorem GetDevice_correct:
  assumes "s = run pf (DeviceManager_new prefs store devs ports) ops"
  shows "(\<forall>pair. map_of (m_devices s) unique_id = Some pair \<and> pair_device pair \<noteq> None
            \<longrightarrow> GetDevice s unique_id = pair)
    \<and> (map_of (m_devices s) unique_id = None
          \<longrightarrow> GetDevice s unique_id = \<lparr>pair_alias = MISSING_DEVICE_ALIAS, pair_device = None\<rparr>)
    \<and> (\<forall>pair. map_of (m_devices s) unique_id = Some pair \<and> pair_device pair = None
            \<longrightarrow> GetDevice s unique_id = \<lparr>pair_alias = MISSING_DEVICE_ALIAS, pair_device = None\<rparr>)
    \<and> GetDevice (snd (UnregisterDevice s unique_id)) unique_id
         = \<lparr>pair_alias = MISSING_DEVICE_ALIAS, pair_device = None\<rparr>
    \<and> MISSING_DEVICE_ALIAS = 0
    \<and> (length (m_devices s) < 2 ^ 32 \<longrightarrow>
         (\<forall>k pair. map_of (m_devices s) k = Some pair \<longrightarrow> pair_alias pair \<noteq> 0))"
proof -
  have found: "\<forall>pair. map_of (m_devices s) unique_id = Some pair \<and> pair_device pair \<noteq> None
            \<longrightarrow> GetDevice s unique_id = pair"
    by (auto simp: GetDevice_def)
  have absent: "map_of (m_devices s) unique_id = None
          \<longrightarrow> GetDevice s unique_id = \<lparr>pair_alias = MISSING_DEVICE_ALIAS, pair_device = None\<rparr>"
    by (simp add: GetDevice_def)
  have inactive: "\<forall>pair. map_of (m_devices s) unique_id = Some pair \<and> pair_device pair = None
            \<longrightarrow> GetDevice s unique_id = \<lparr>pair_alias = MISSING_DEVICE_ALIAS, pair_device = None\<rparr>"
    by (simp add: GetDevice_def)
  have after: "GetDevice (snd (UnregisterDevice s unique_id)) unique_id
         = \<lparr>pair_alias = MISSING_DEVICE_ALIAS, pair_device = None\<rparr>"
    by (auto simp: GetDevice_def UnregisterDevice_def map_of_set_device split: option.splits)
  have missing: "MISSING_DEVICE_ALIAS = 0"
    by (simp add: MISSING_DEVICE_ALIAS_def)
  have bounded: "length (m_devices s) < 2 ^ 32 \<longrightarrow>
      (\<forall>k pair. map_of (m_devices s) k = Some pair \<longrightarrow> pair_alias pair \<noteq> 0)"
  proof
    assume "length (m_devices s) < 2 ^ 32"
    from GetDevice_correct_bounded [OF assms this, of unique_id]
    show "\<forall>k pair. map_of (m_devices s) k = Some pair \<longrightarrow> pair_alias pair \<noteq> 0"
      by blast
  qed
  from found absent inactive after missing bounded show ?thesis by (intro conjI)
qed

text \<open>With \<open>usb-1\<close> and \<open>usb-2\<close> registered: \<open>usb-1\<close> is found with alias 1, the unknown
  \<open>usb-3\<close> gives the missing pair, and so does \<open>usb-1\<close> once it is unregistered.\<close>

theorem GetDevice_correct_witness:
  "length (m_devices (run glibc_lp64 demo_manager scenario_start)) < 2 ^ 32
   \<and> GetDevice (run glibc_lp64 demo_manager scenario_start) ''usb-1''
       = \<lparr>pair_alias = 1, pair_device = Some 1\<rparr>
   \<and> GetDevice (run glibc_lp64 demo_manager scenario_start) ''usb-3''
       = \<lparr>pair_alias = 0, pair_device = None\<rparr>
   \<and> GetDevice (snd (UnregisterDevice (run glibc_lp64 demo_manager scenario_start) ''usb-1''))
        ''usb-1'' = \<lparr>pair_alias = 0, pair_device = None\<rparr>"
  using GetDevice_correct
    [where s = "run glibc_lp64 demo_manager scenario_start" and pf = glibc_lp64
      and prefs = "Some Map.empty" and store = "{}" and devs = demo_devices
      and ports = demo_ports and ops = scenario_start and unique_id = "''usb-1''",
      folded demo_manager_def]
  by (simp add: GetDevice_def scenario_start_state MISSING_DEVICE_ALIAS_def)

text \<open>C6 as stated, that alias 0 is never assigned, fails once the counter has come
  round: the device that registers as number \<open>2^32\<close> is active and has alias 0.\<close>

theorem alias_zero_after_wrap:
  "GetDevice (run glibc_lp64 many_manager (register_upto 4294967296))
      (dev_UniqueId (many_devices 4294967295))
     = \<lparr>pair_alias = 0, pair_device = Some 4294967295\<rparr>"
  using register_upto_record [of 4294967295 4294967296 glibc_lp64] wrap_0
  by (simp add: GetDevice_def)

subsection \<open>The number of active devices\<close>

lemma active_keys_iff:
  assumes "distinct (map fst xs)"
  shows "(k \<in> set (map fst (filter is_active xs))) =
    (\<exists>pair. map_of xs k = Some pair \<and> pair_device pair \<noteq> None)"
proof
  assume "k \<in> set (map fst (filter is_active xs))"
  then obtain pair where e: "(k, pair) \<in> set xs" and a: "is_active (k, pair)" by auto
  from assms e have "map_of xs k = Some pair" by (rule map_of_is_SomeI)
  with a show "\<exists>pair. map_of xs k = Some pair \<and> pair_device pair \<noteq> None"
    by (auto simp: is_active_def)
next
  assume "\<exists>pair. map_of xs k = Some pair \<and> pair_device pair \<noteq> None"
  then obtain pair where m: "map_of xs k = Some pair" and a: "pair_device pair \<noteq> None" by blast
  from m have "(k, pair) \<in> set xs" by (rule map_of_SomeD)
  with a have "(k, pair) \<in> set (filter is_active xs)" by (simp add: is_active_def)
  then show "k \<in> set (map fst (filter is_active xs))" by force
qed

lemma active_ids_iff:
  "records_inv s \<Longrightarrow>
     (k \<in> active_ids s) = (\<exists>pair. map_of (m_devices s) k = Some pair \<and> pair_device pair \<noteq> None)"
  by (simp only: active_ids_def records_inv_def active_keys_iff)

lemma active_ids_step:
  assumes "records_inv s"
  shows "active_ids (step pf s op) = registered_step (heap_devices s) (active_ids s) op"
proof (intro set_eqI)
  fix x
  have inv': "records_inv (step pf s op)" using assms by (rule records_inv_step)
  have empty: "map_of (m_devices s) [] = None"
    using assms by (simp add: records_inv_def map_of_eq_None_iff)
  note iff = active_ids_iff [OF inv'] active_ids_iff [OF assms]
  show "(x \<in> active_ids (step pf s op)) = (x \<in> registered_step (heap_devices s) (active_ids s) op)"
  proof (cases op)
    case (Register dev)
    show ?thesis
    proof (cases dev)
      case None
      with Register show ?thesis by (simp add: RegisterDevice_def)
    next
      case (Some d)
      show ?thesis
        unfolding iff(1) using Register Some
        by (auto simp: iff(2) RegisterDevice_def install_device_def Let_def map_of_set_device
            map_of_map_insert split: option.splits)
    qed
  next
    case (Unregister k)
    show ?thesis
      unfolding iff(1) using Unregister
      by (auto simp: iff(2) UnregisterDevice_def Let_def map_of_set_device split: option.splits)
  next
    case (UnregisterPtr dev)
    show ?thesis
    proof (cases dev)
      case None
      with UnregisterPtr show ?thesis by (simp add: UnregisterDevice_ptr_def)
    next
      case (Some d)
      show ?thesis
        unfolding iff(1) using UnregisterPtr Some empty
        by (auto simp: iff(2) UnregisterDevice_ptr_def UnregisterDevice_def Let_def
            map_of_set_device split: option.splits)
    qed
  next
    case UnregisterAll
    show ?thesis
      unfolding iff(1) using UnregisterAll
      by (auto simp: UnregisterAllDevices_fields map_of_clear_devices)
  qed
qed

lemma registered_ids_snoc:
  "registered_ids devs (ops @ [op]) = registered_step devs (registered_ids devs ops) op"
  by (simp add: registered_ids_def)

lemma active_ids_run:
  "active_ids (run pf (DeviceManager_new prefs store devs ports) ops) = registered_ids devs ops"
proof (induction ops rule: rev_induct)
  case Nil
  show ?case by (simp add: active_ids_def registered_ids_def DeviceManager_new_def)
next
  case (snoc op ops)
  let ?s = "run pf (DeviceManager_new prefs store devs ports) ops"
  have "records_inv ?s" by (intro records_inv_run records_inv_new)
  then have "active_ids (step pf ?s op) = registered_step (heap_devices ?s) (active_ids ?s) op"
    by (rule active_ids_step)
  moreover have "heap_devices ?s = devs" by (simp add: DeviceManager_new_def)
  ultimately show ?case by (simp add: run_snoc registered_ids_snoc snoc.IH)
qed

lemma card_active_ids:
  assumes "records_inv s"
  shows "card (active_ids s) = length (filter is_active (m_devices s))"
proof -
  have "distinct (map fst (m_devices s))" using assms by (simp add: records_inv_def)
  then have "distinct (map fst (filter is_active (m_devices s)))"
    by (rule distinct_map_filter)
  then have "card (set (map fst (filter is_active (m_devices s))))
      = length (map fst (filter is_active (m_devices s)))"
    by (rule distinct_card)
  then show ?thesis by (simp add: active_ids_def)
qed

lemma DeviceCount_correct_bounded:
  assumes "s = run pf (DeviceManager_new prefs store devs ports) ops"
    and "length (filter is_active (m_devices s)) < 2 ^ 32"
  shows "unat (DeviceCount s) = length (filter is_active (m_devices s))
    \<and> length (filter is_active (m_devices s)) = card (registered_ids devs ops)
    \<and> active_ids s = registered_ids devs ops"
proof -
  have inv: "records_inv s"
    unfolding assms(1) by (intro records_inv_run records_inv_new)
  have a: "active_ids s = registered_ids devs ops"
    unfolding assms(1) by (rule active_ids_run)
  have "unat (of_nat (length (filter is_active (m_devices s))) :: 32 word)
      = length (filter is_active (m_devices s))"
    using assms(2) by (simp only: unat_of_nat) simp
  then have "unat (DeviceCount s) = length (filter is_active (m_devices s))"
    by (simp only: DeviceCount_eq)
  moreover have "length (filter is_active (m_devices s)) = card (registered_ids devs ops)"
    using card_active_ids [OF inv] a by simp
  ultimately show ?thesis using a by blast
qed

text \<open>
  C8, as amended. In a state reached from a new manager by any calls, the unique ids
  with an active record are exactly those that are registered when the calls are
  replayed without the manager (\<open>registered_ids\<close>), however many have been registered
  and unregistered before; their number is the number of records whose device is not
  null; and \<open>DeviceCount\<close> is that number as an \<^verbatim>\<open>unsigned int\<close>. If fewer than \<open>2^32\<close>
  records have a device, \<open>DeviceCount\<close> is that number.
\<close>

theorem DeviceCount_correct:
  assumes "s = run pf (DeviceManager_new prefs store devs ports) ops"
  shows "active_ids s = registered_ids devs ops
    \<and> length (filter is_active (m_devices s)) = card (registered_ids devs ops)
    \<and> DeviceCount s = of_nat (length (filter is_active (m_devices s)))
    \<and> (length (filter is_active (m_devices s)) < 2 ^ 32 \<longrightarrow>
         unat (DeviceCount s) = length (filter is_active (m_devices s)))"
proof -
  have inv: "records_inv s"
    unfolding assms by (intro records_inv_run records_inv_new)
  have a: "active_ids s = registered_ids devs ops"
    unfolding assms by (rule active_ids_run)
  have n: "length (filter is_active (m_devices s)) = card (registered_ids devs ops)"
    using card_active_ids [OF inv] a by simp
  have c: "DeviceCount s = of_nat (length (filter is_active (m_devices s)))"
    by (rule DeviceCount_eq)
  have bounded: "length (filter is_active (m_devices s)) < 2 ^ 32 \<longrightarrow>
      unat (DeviceCount s) = length (filter is_active (m_devices s))"
  proof
    assume "length (filter is_active (m_devices s)) < 2 ^ 32"
    from DeviceCount_correct_bounded [OF assms this]
    show "unat (DeviceCount s) = length (filter is_active (m_devices s))"
      by (rule conjunct1)
  qed
  from a n c bounded show ?thesis by (intro conjI)
qed

text \<open>After \<open>usb-1\<close> and \<open>usb-2\<close> have registered and \<open>usb-1\<close> has unregistered, one
  device is counted and \<open>usb-2\<close> is the one registered.\<close>

theorem DeviceCount_correct_witness:
  "length (filter is_active (m_devices (run glibc_lp64 demo_manager
      (scenario_start @ [Unregister ''usb-1''])))) < 2 ^ 32
   \<and> DeviceCount (run glibc_lp64 demo_manager (scenario_start @ [Unregister ''usb-1''])) = 1
   \<and> registered_ids demo_devices (scenario_start @ [Unregister ''usb-1'']) = {''usb-2''}
   \<and> active_ids (run glibc_lp64 demo_manager (scenario_start @ [Unregister ''usb-1'']))
       = {''usb-2''}"
  using DeviceCount_correct
    [where s = "run glibc_lp64 demo_manager (scenario_start @ [Unregister ''usb-1''])"
      and pf = glibc_lp64 and prefs = "Some Map.empty" and store = "{}" and devs = demo_devices
      and ports = demo_ports and ops = "scenario_start @ [Unregister ''usb-1'']",
      folded demo_manager_def]
    scenario_unregistered_state [of glibc_lp64]
  by (auto simp: DeviceCount_def is_active_def active_ids_def registered_ids_def
      scenario_start_def demo_devices_def)

text \<open>C8 as stated fails when \<open>2^32\<close> devices are active: the count, an
  \<^verbatim>\<open>unsigned int\<close>, is 0.\<close>

theorem DeviceCount_wraps:
  "DeviceCount (run glibc_lp64 many_manager (register_upto 4294967296)) = 0
   \<and> length (filter is_active
        (m_devices (run glibc_lp64 many_manager (register_upto 4294967296)))) = 4294967296"
proof -
  let ?s = "run glibc_lp64 many_manager (register_upto 4294967296)"
  have "filter is_active (m_devices ?s) = m_devices ?s"
    using register_upto_state [of glibc_lp64 4294967296] by (simp add: filter_id_conv)
  then have "length (filter is_active (m_devices ?s)) = 4294967296"
    using register_upto_state [of glibc_lp64 4294967296] by simp
  then show ?thesis by (simp add: DeviceCount_eq)
qed

end
